theory Spec2Isabelle
  imports Main "HOL-Library.AList"
begin

section \<open>Content operations of the Roam server: pages, blocks and outlines\<close>

text \<open>
  The module \<^verbatim>\<open>roam_mcp/content.py\<close> creates pages and nested blocks in a remote
  graph. Every entry point groups the blocks by nesting level, sends one request of
  \<^verbatim>\<open>create-block\<close> actions per level and remembers, per level, the identifier
  under which the next level is attached. The store, the page lookups and the
  generator of identifiers are collaborators of the module; here they are the fields of
  an environment, and everything the module sends to them is written to a log.
\<close>

subsection \<open>Values of the input dictionaries\<close>

text \<open>
  The content of a page arrives as dictionaries that the module checks by
  \<^verbatim>\<open>isinstance\<close>. A value is an integer, a string, or neither: \<open>PNone\<close> is
  \<^verbatim>\<open>None\<close> or another such value that counts as false (an empty list or
  dictionary), \<open>POther\<close> a value that counts as true and has no order with the integers
  (a list or a dictionary that is not empty), with the name of its type. Booleans and
  floats are left out. A key may be absent (\<open>None\<close> of the option type). The value under
  \<^verbatim>\<open>children\<close> is a list of items or not a list.
\<close>

datatype pyval = PInt int | PStr string | PNone | POther string

datatype 'a pylist = NotAList | PyList "'a list"

datatype item = Item (item_text: "pyval option") (item_level: "pyval option")
  (item_heading_level: "pyval option") (item_children: "item pylist option")

text \<open>
  An entry of \<^verbatim>\<open>flattened_content\<close>, and of the list a markdown parser returns. The
  heading level is not checked anywhere before it is used, so it is any value.
\<close>

record flat =
  n_text :: string
  n_level :: int
  n_heading_level :: pyval

subsection \<open>The collaborators\<close>

datatype 'a outcome = Raised string | Returned 'a

text \<open>A \<^verbatim>\<open>create-block\<close> action: its location and its block.\<close>

datatype action = Action (act_parent_uid: string) (act_order: string)
  (act_string: string) (act_uid: string) (act_heading: "int option")

text \<open>\<^verbatim>\<open>execute_write_action\<close> is called with one action or with a list of them.\<close>

datatype request = Single action | Batch "action list"

text \<open>
  What the module reads of the dictionary that \<^verbatim>\<open>execute_write_action\<close> returns:
  the list under \<^verbatim>\<open>created_uids\<close> when the key is there, and
  \<^verbatim>\<open>result.get("success", False)\<close>.
\<close>

datatype response = Response (resp_created_uids: "string list option") (resp_success: bool)

datatype event =
    FindOrCreatePage string "string outcome"
  | GetDailyPage "string outcome"
  | FindPageByTitle string "string option outcome"
  | ExecuteQuery string "bool outcome"
  | FindBlockUid string "string option outcome"
  | Write request "response outcome"

text \<open>
  The environment. The answer of the store to a write may depend on everything that was
  sent before (the log). \<open>uuid4 n\<close> is the \<open>n\<close>-th value of
  \<^verbatim>\<open>str(uuid.uuid4())[:9]\<close>. \<open>execute_query\<close> stands for the query that asks
  whether a block with the given identifier exists, and tells whether its result is
  non-empty. \<open>parse_markdown_list\<close> is the markdown parser after
  \<^verbatim>\<open>convert_to_roam_markdown\<close>.
\<close>

record env =
  find_or_create_page :: "string \<Rightarrow> string outcome"
  get_daily_page :: "string outcome"
  find_page_by_title :: "string \<Rightarrow> string option outcome"
  execute_query :: "string \<Rightarrow> bool outcome"
  find_block_uid :: "string \<Rightarrow> string option outcome"
  execute_write_action :: "event list \<Rightarrow> request \<Rightarrow> response outcome"
  uuid4 :: "nat \<Rightarrow> string"
  parse_markdown_list :: "string \<Rightarrow> flat list"
  GRAPH_NAME :: string

text \<open>The dictionary an entry point returns; a key that is not set is \<open>None\<close>.\<close>

record result =
  success :: bool
  error :: "string option"
  uid :: "string option"
  page_uid :: "string option"
  parent_uid :: "string option"
  block_uid :: "string option"
  created_uids :: "string list option"
  page_url :: "string option"

definition failure :: "string \<Rightarrow> result" where
  "failure msg =
     \<lparr>success = False, error = Some msg, uid = None, page_uid = None, parent_uid = None,
      block_uid = None, created_uids = None, page_url = None\<rparr>"

text \<open>The local variables of a level loop, the log and the number of identifiers drawn.\<close>

record state =
  created :: "string list"
  level_parent_map :: "int \<rightharpoonup> string"
  log :: "event list"
  next_uuid :: nat

subsection \<open>\<^verbatim>\<open>create_page\<close>\<close>

text \<open>\<^verbatim>\<open>validate_item\<close> (lines 66-82): the first error message, or \<open>None\<close>.\<close>

fun validate_item :: "item \<Rightarrow> int \<Rightarrow> string option"
  and validate_children :: "item list \<Rightarrow> int \<Rightarrow> string option" where
  "validate_item (Item t l h c) parent_level =
     (case t of
        Some (PStr s) \<Rightarrow>
          (case (case l of None \<Rightarrow> PInt (parent_level + 1) | Some v \<Rightarrow> v) of
             PInt level \<Rightarrow>
               if level < 0 then Some '''level' must be non-negative''
               else (case c of
                       None \<Rightarrow> None
                     | Some NotAList \<Rightarrow> Some '''children' must be a list''
                     | Some (PyList children) \<Rightarrow> validate_children children level)
           | _ \<Rightarrow> Some '''level' must be an integer'')
      | _ \<Rightarrow> Some ''Each item must have 'text' as a string'')"
| "validate_children [] level = None"
| "validate_children (child # children) level =
     (case validate_item child level of
        Some err \<Rightarrow> Some err
      | None \<Rightarrow> validate_children children level)"

text \<open>
  The loop of lines 84-87 calls \<^verbatim>\<open>validate_item(item, -1)\<close> on every item and returns
  at the first error: it is \<open>validate_children content (- 1)\<close>.
\<close>

text \<open>
  The dictionary appended at lines 97-105. The flattening runs after the validation, where
  the text is a string and the level, when present, an integer.
\<close>

definition flat_of :: "pyval option \<Rightarrow> pyval option \<Rightarrow> pyval option \<Rightarrow> int \<Rightarrow> flat" where
  "flat_of t l h parent_level =
     \<lparr>n_text = (case t of Some (PStr s) \<Rightarrow> s | _ \<Rightarrow> []),
      n_level = (case l of Some (PInt n) \<Rightarrow> n | _ \<Rightarrow> parent_level + 1),
      n_heading_level = (case h of Some v \<Rightarrow> v | None \<Rightarrow> PInt 0)\<rparr>"

text \<open>
  \<^verbatim>\<open>flatten_content\<close> (lines 95-109) appends to the list \<^verbatim>\<open>flattened_content\<close> of
  the enclosing call; the list is the third argument and the result.
\<close>

fun flatten_content :: "item list \<Rightarrow> int \<Rightarrow> flat list \<Rightarrow> flat list" where
  "flatten_content [] parent_level flattened_content = flattened_content"
| "flatten_content (Item t l h c # items) parent_level flattened_content =
     flatten_content items parent_level
       (case c of
          Some (PyList children) \<Rightarrow>
            if children \<noteq> []
            then flatten_content children (n_level (flat_of t l h parent_level))
                   (flattened_content @ [flat_of t l h parent_level])
            else flattened_content @ [flat_of t l h parent_level]
        | _ \<Rightarrow> flattened_content @ [flat_of t l h parent_level])"

text \<open>
  Grouping by level (lines 117-122). The dictionary \<^verbatim>\<open>level_items\<close> is an association
  list in insertion order.
\<close>

fun group_by_level :: "flat list \<Rightarrow> (int \<times> flat list) list \<Rightarrow> (int \<times> flat list) list" where
  "group_by_level [] level_items = level_items"
| "group_by_level (item # items) level_items =
     group_by_level items
       (case map_of level_items (n_level item) of
          None \<Rightarrow> AList.update (n_level item) [item] level_items
        | Some its \<Rightarrow> AList.update (n_level item) (its @ [item]) level_items)"

text \<open>
  An action with a heading level that is an integer: the heading is set when
  \<^verbatim>\<open>heading_level and 0 < heading_level <= 3\<close>.
\<close>

definition create_block_action :: "string \<Rightarrow> string \<Rightarrow> string \<Rightarrow> string \<Rightarrow> int \<Rightarrow> action" where
  "create_block_action parent ord txt u heading_level =
     Action parent ord txt u
       (if heading_level \<noteq> 0 \<and> heading_level > 0 \<and> heading_level \<le> 3
        then Some heading_level else None)"

text \<open>
  The same test on a heading level that was not checked to be an integer (lines 159, 302
  and 737): a value that counts as false sets no heading; a string or another value that
  counts as true cannot be compared with 0, and \<^verbatim>\<open>TypeError\<close> is raised with this
  message.
\<close>

definition type_error :: "string \<Rightarrow> string" where
  "type_error type_name =
     [CHR 0x27] @ ''>'' @ [CHR 0x27] @ '' not supported between instances of ''
     @ [CHR 0x27] @ type_name @ [CHR 0x27] @ '' and '' @ [CHR 0x27] @ ''int'' @ [CHR 0x27]"

definition heading_of :: "pyval \<Rightarrow> int option outcome" where
  "heading_of heading_level =
     (case heading_level of
        PInt n \<Rightarrow> Returned (if n \<noteq> 0 \<and> n > 0 \<and> n \<le> 3 then Some n else None)
      | PStr s \<Rightarrow> if s = [] then Returned None else Raised (type_error ''str'')
      | PNone \<Rightarrow> Returned None
      | POther type_name \<Rightarrow> Raised (type_error type_name))"

text \<open>
  The parent of the items of a level (lines 135-140): the entry of the level below in
  \<^verbatim>\<open>level_parent_map\<close>, and the page when there is none.
\<close>

definition parent_of_level :: "(int \<rightharpoonup> string) \<Rightarrow> string \<Rightarrow> int \<Rightarrow> string" where
  "parent_of_level m root level =
     (let parent_level = level - 1;
          parent_level = (if parent_level < - 1 then - 1 else parent_level)
      in case m parent_level of Some u \<Rightarrow> u | None \<Rightarrow> root)"

text \<open>
  The inner loop (lines 131-162): the actions of one level and their generated
  identifiers \<^verbatim>\<open>level_uids\<close>; \<open>n\<close> identifiers were drawn before. The loop ends
  at the first item whose heading level raises.
\<close>

fun level_actions :: "env \<Rightarrow> string \<Rightarrow> (int \<rightharpoonup> string) \<Rightarrow> int \<Rightarrow> flat list \<Rightarrow> nat
    \<Rightarrow> (action list \<times> string list) outcome" where
  "level_actions e root m level [] n = Returned ([], [])"
| "level_actions e root m level (item # items) n =
     (case heading_of (n_heading_level item) of
        Raised msg \<Rightarrow> Raised msg
      | Returned heading \<Rightarrow>
          (case level_actions e root m level items (Suc n) of
             Raised msg \<Rightarrow> Raised msg
           | Returned (batch_actions, level_uids) \<Rightarrow>
               Returned
                 (Action (parent_of_level m root level) ''last'' (n_text item) (uuid4 e n)
                    heading # batch_actions,
                  uuid4 e n # level_uids)))"

text \<open>
  The outer loop over the sorted levels. It is written three times in the module with the
  same text after the inner loop (lines 164-179 of \<^verbatim>\<open>create_page\<close>, 307-322 of
  \<^verbatim>\<open>create_block\<close>, 531-546 of \<^verbatim>\<open>create_outline\<close>): send the batch, extend
  \<^verbatim>\<open>created_uids\<close>, store the last generated identifier of the level. The inner loop
  is the argument \<open>build\<close>. The result is \<open>Some msg\<close> when the inner loop or
  \<^verbatim>\<open>execute_write_action\<close> raised, with the state reached.
\<close>

fun process_levels :: "env
    \<Rightarrow> ((int \<rightharpoonup> string) \<Rightarrow> int \<Rightarrow> flat list \<Rightarrow> nat \<Rightarrow> (action list \<times> string list) outcome)
    \<Rightarrow> (int \<times> flat list) list \<Rightarrow> int list \<Rightarrow> state \<Rightarrow> string option \<times> state" where
  "process_levels e build level_items [] s = (None, s)"
| "process_levels e build level_items (level # levels) s =
     (case map_of level_items level of
        None \<Rightarrow> (Some ''KeyError'', s)
      | Some items \<Rightarrow>
          (case build (level_parent_map s) level items (next_uuid s) of
             Raised msg \<Rightarrow> (Some msg, s)
           | Returned (batch_actions, level_uids) \<Rightarrow>
               if batch_actions = []
               then process_levels e build level_items levels
                      (s\<lparr>next_uuid := next_uuid s + length items\<rparr>)
               else
                 (case execute_write_action e (log s) (Batch batch_actions) of
                    Raised msg \<Rightarrow>
                      (Some msg,
                       s\<lparr>next_uuid := next_uuid s + length items,
                         log := log s @ [Write (Batch batch_actions) (Raised msg)]\<rparr>)
                  | Returned r \<Rightarrow>
                      process_levels e build level_items levels
                        (s\<lparr>created :=
                             (case resp_created_uids r of
                                Some uids \<Rightarrow> created s @ uids
                              | None \<Rightarrow>
                                  if resp_success r then created s @ level_uids
                                  else created s),
                           level_parent_map :=
                             (if level_uids \<noteq> []
                              then (level_parent_map s)(level \<mapsto> last level_uids)
                              else level_parent_map s),
                           next_uuid := next_uuid s + length items,
                           log := log s @ [Write (Batch batch_actions) (Returned r)]\<rparr>))))"

text \<open>
  \<^verbatim>\<open>create_page\<close> (lines 40-207). Every exception raised inside the \<^verbatim>\<open>try\<close> ends
  in the same dictionary: no success, and the message.
\<close>

definition create_page :: "env \<Rightarrow> string \<Rightarrow> item list option \<Rightarrow> result \<times> event list" where
  "create_page e title content =
     (if title = [] then (failure ''Title is required'', [])
      else
        (case find_or_create_page e title of
           Raised msg \<Rightarrow> (failure msg, [FindOrCreatePage title (Raised msg)])
         | Returned page \<Rightarrow>
             (let log0 = [FindOrCreatePage title (Returned page)];
                  url = ''https://roamresearch.com/#/app/'' @ GRAPH_NAME e @ ''/page/'' @ page
              in if content = None \<or> content = Some []
                 then (\<lparr>success = True, error = None, uid = Some page, page_uid = None,
                        parent_uid = None, block_uid = None, created_uids = None,
                        page_url = Some url\<rparr>, log0)
                 else
                   (case validate_children (the content) (- 1) of
                      Some err \<Rightarrow> (failure (''Invalid content structure - '' @ err), log0)
                    | None \<Rightarrow>
                        (let flattened_content = flatten_content (the content) (- 1) [];
                             flattened_content = sort_key n_level flattened_content;
                             level_items = group_by_level flattened_content []
                         in case process_levels e (level_actions e page) level_items
                                   (sort (map fst level_items))
                                   \<lparr>created = [], level_parent_map = [- 1 \<mapsto> page],
                                    log = log0, next_uuid = 0\<rparr> of
                              (Some msg, s) \<Rightarrow> (failure msg, log s)
                            | (None, s) \<Rightarrow>
                                (\<lparr>success = True, error = None, uid = Some page,
                                  page_uid = None, parent_uid = None, block_uid = None,
                                  created_uids = Some (created s), page_url = Some url\<rparr>,
                                 log s))))))"

subsection \<open>\<^verbatim>\<open>create_block\<close>\<close>

text \<open>An optional string argument counts as given when it is there and not empty.\<close>

definition given :: "string option \<Rightarrow> string option" where
  "given x = (case x of Some (c # cs) \<Rightarrow> Some (c # cs) | _ \<Rightarrow> None)"

text \<open>
  The target page (lines 231-242 and 613-624): the given identifier, the page found or
  created by title, or the daily page.
\<close>

definition target_page :: "env \<Rightarrow> string option \<Rightarrow> string option \<Rightarrow> event list
    \<Rightarrow> string outcome \<times> event list" where
  "target_page e page_uid_arg page_title lg =
     (case given page_uid_arg of
        Some u \<Rightarrow> (Returned u, lg)
      | None \<Rightarrow>
          (case given page_title of
             Some t \<Rightarrow>
               (find_or_create_page e t, lg @ [FindOrCreatePage t (find_or_create_page e t)])
           | None \<Rightarrow> (get_daily_page e, lg @ [GetDailyPage (get_daily_page e)])))"

text \<open>
  \<^verbatim>\<open>create_block\<close> (lines 210-386). Content with a newline is parsed into items with a
  level and goes through the level loop, without sorting the items first; other content
  is one block.
\<close>

definition create_block :: "env \<Rightarrow> string \<Rightarrow> string option \<Rightarrow> string option
    \<Rightarrow> result \<times> event list" where
  "create_block e content page_uid_arg page_title =
     (if content = [] then (failure ''Content is required'', [])
      else
        (case target_page e page_uid_arg page_title [] of
           (Raised msg, lg) \<Rightarrow> (failure msg, lg)
         | (Returned target_page_uid, lg) \<Rightarrow>
             if CHR 0x0A \<in> set content
             then
               (let parsed_content = parse_markdown_list e content
                in if parsed_content = [] then (failure ''Failed to parse content'', lg)
                   else
                     (let level_items = group_by_level parsed_content []
                      in case process_levels e (level_actions e target_page_uid) level_items
                                (sort (map fst level_items))
                                \<lparr>created = [], level_parent_map = [- 1 \<mapsto> target_page_uid],
                                 log = lg, next_uuid = 0\<rparr> of
                           (Some msg, s) \<Rightarrow> (failure msg, log s)
                         | (None, s) \<Rightarrow>
                             (\<lparr>success = True, error = None, uid = None, page_uid = None,
                               parent_uid = Some target_page_uid,
                               block_uid = (case created s of [] \<Rightarrow> None | u # us \<Rightarrow> Some u),
                               created_uids = Some (created s), page_url = None\<rparr>,
                              log s)))
             else
               (let u = uuid4 e 0;
                    action_data = Single (Action target_page_uid ''last'' content u None)
                in case execute_write_action e lg action_data of
                     Raised msg \<Rightarrow> (failure msg, lg @ [Write action_data (Raised msg)])
                   | Returned r \<Rightarrow>
                       (let lg = lg @ [Write action_data (Returned r)]
                        in if resp_success r
                           then
                             (case find_block_uid e content of
                                Raised msg \<Rightarrow>
                                  (failure msg, lg @ [FindBlockUid content (Raised msg)])
                              | Returned found_uid \<Rightarrow>
                                  (\<lparr>success = True, error = None, uid = None, page_uid = None,
                                    parent_uid = Some target_page_uid,
                                    block_uid =
                                      (case given found_uid of
                                         Some f \<Rightarrow> Some f | None \<Rightarrow> Some u),
                                    created_uids = None, page_url = None\<rparr>,
                                   lg @ [FindBlockUid content (Returned found_uid)]))
                           else (failure ''Failed to create block'', lg)))))"

subsection \<open>\<^verbatim>\<open>create_outline\<close>\<close>

text \<open>
  An outline item carries a string under \<^verbatim>\<open>text\<close> and an integer under
  \<^verbatim>\<open>level\<close>; of the check of line 409 this leaves the test for an empty text.
\<close>

text \<open>
  The parent of the items of a level (lines 500-510): the given parent for the levels
  below 1, else the entry of the level below when that level has items and an entry.
\<close>

definition outline_parent :: "string \<Rightarrow> (int \<times> flat list) list \<Rightarrow> (int \<rightharpoonup> string) \<Rightarrow> int
    \<Rightarrow> string" where
  "outline_parent parent level_items current_level_parents level =
     (let parent_level = level - 1
      in if parent_level < 0 then parent
         else
           (let parent_index =
                  int (length (case map_of level_items parent_level of
                                 Some its \<Rightarrow> its | None \<Rightarrow> [])) - 1
            in case current_level_parents parent_level of
                 Some u \<Rightarrow> if parent_index \<ge> 0 then u else parent
               | None \<Rightarrow> parent))"

text \<open>The inner loop (lines 499-529); no heading is set here.\<close>

fun outline_actions :: "env \<Rightarrow> string \<Rightarrow> (int \<times> flat list) list \<Rightarrow> (int \<rightharpoonup> string) \<Rightarrow> int
    \<Rightarrow> flat list \<Rightarrow> nat \<Rightarrow> action list \<times> string list" where
  "outline_actions e parent level_items m level [] n = ([], [])"
| "outline_actions e parent level_items m level (item # items) n =
     (let parent_for_item = outline_parent parent level_items m level;
          u = uuid4 e n;
          action = Action parent_for_item ''last'' (n_text item) u None;
          (level_batch, level_uids) = outline_actions e parent level_items m level items (Suc n)
      in (action # level_batch, u # level_uids))"

text \<open>A block identifier: nine characters out of letters, digits, underscore and hyphen.\<close>

definition uid_char :: "char \<Rightarrow> bool" where
  "uid_char c =
     (let k = of_char c :: nat
      in (97 \<le> k \<and> k \<le> 122) \<or> (65 \<le> k \<and> k \<le> 90) \<or> (48 \<le> k \<and> k \<le> 57)
         \<or> k = 95 \<or> k = 45)"

definition is_block_uid :: "string \<Rightarrow> bool" where
  "is_block_uid s = (length s = 9 \<and> list_all uid_char s)"

text \<open>
  The parent block of an outline (lines 436-479): the page, the block with the given
  identifier when the store has it, or a header block created with the given text and
  looked up again. The result is the parent, or the dictionary returned early.
\<close>

definition outline_parent_block :: "env \<Rightarrow> string \<Rightarrow> string option \<Rightarrow> event list \<times> nat
    \<Rightarrow> (result + string) outcome \<times> event list \<times> nat" where
  "outline_parent_block e target_page_uid block_text_uid w =
     (case given block_text_uid of
        None \<Rightarrow> (Returned (Inr target_page_uid), w)
      | Some b \<Rightarrow>
          if is_block_uid b
          then
            (case execute_query e b of
               Raised msg \<Rightarrow> (Raised msg, fst w @ [ExecuteQuery b (Raised msg)], snd w)
             | Returned found \<Rightarrow>
                 (Returned (if found then Inr b
                            else Inl (failure (''Block with UID '' @ b @ '' not found''))),
                  fst w @ [ExecuteQuery b (Returned found)], snd w))
          else
            (let action_data = Single (Action target_page_uid ''last'' b (uuid4 e (snd w)) None)
             in case execute_write_action e (fst w) action_data of
                  Raised msg \<Rightarrow>
                    (Raised msg, fst w @ [Write action_data (Raised msg)], Suc (snd w))
                | Returned r \<Rightarrow>
                    (case find_block_uid e b of
                       Raised msg \<Rightarrow>
                         (Raised msg,
                          fst w @ [Write action_data (Returned r), FindBlockUid b (Raised msg)],
                          Suc (snd w))
                     | Returned header_uid \<Rightarrow>
                         (Returned
                            (case given header_uid of
                               None \<Rightarrow>
                                 Inl (failure (''Failed to create header block with text: '' @ b))
                             | Some h \<Rightarrow> Inr h),
                          fst w @ [Write action_data (Returned r),
                                   FindBlockUid b (Returned header_uid)],
                          Suc (snd w)))))"

text \<open>The target page of an outline (lines 419-433).\<close>

definition outline_page :: "env \<Rightarrow> string option \<Rightarrow> string outcome \<times> event list" where
  "outline_page e page_title_uid =
     (case given page_title_uid of
        Some t \<Rightarrow>
          (case find_page_by_title e t of
             Raised msg \<Rightarrow> (Raised msg, [FindPageByTitle t (Raised msg)])
           | Returned found \<Rightarrow>
               (case given found of
                  Some p \<Rightarrow> (Returned p, [FindPageByTitle t (Returned found)])
                | None \<Rightarrow>
                    (find_or_create_page e t,
                     [FindPageByTitle t (Returned found),
                      FindOrCreatePage t (find_or_create_page e t)])))
      | None \<Rightarrow> (get_daily_page e, [GetDailyPage (get_daily_page e)]))"

text \<open>\<^verbatim>\<open>create_outline\<close> (lines 389-578).\<close>

definition create_outline :: "env \<Rightarrow> flat list \<Rightarrow> string option \<Rightarrow> string option
    \<Rightarrow> result \<times> event list" where
  "create_outline e outline page_title_uid block_text_uid =
     (if outline = [] then (failure ''Outline cannot be empty'', [])
      else if filter (\<lambda>item. n_text item = []) outline \<noteq> []
      then (failure ''All outline items must have text and a valid level'', [])
      else
        (case outline_page e page_title_uid of
           (Raised msg, lg) \<Rightarrow> (failure msg, lg)
         | (Returned target_page_uid, lg) \<Rightarrow>
             (case outline_parent_block e target_page_uid block_text_uid (lg, 0) of
                (Raised msg, lg, n) \<Rightarrow> (failure msg, lg)
              | (Returned (Inl early), lg, n) \<Rightarrow> (early, lg)
              | (Returned (Inr parent), lg, n) \<Rightarrow>
                  (let level_items = group_by_level outline []
                   in case process_levels e
                             (\<lambda>m level items k.
                                Returned (outline_actions e parent level_items m level items k))
                             level_items
                             (sort (map fst level_items))
                             \<lparr>created = [], level_parent_map = [- 1 \<mapsto> parent],
                              log = lg, next_uuid = n\<rparr> of
                        (Some msg, s) \<Rightarrow> (failure msg, log s)
                      | (None, s) \<Rightarrow>
                          (\<lparr>success = True, error = None, uid = None,
                            page_uid = Some target_page_uid, parent_uid = Some parent,
                            block_uid = None, created_uids = Some (created s),
                            page_url = None\<rparr>,
                           log s)))))"

subsection \<open>\<^verbatim>\<open>import_markdown\<close>\<close>

text \<open>
  The inner loop (lines 709-744). The order of the location is the argument
  \<^verbatim>\<open>order\<close> at level 0. The entry of the level in \<^verbatim>\<open>level_parent_map\<close> is
  overwritten only when the level already has one (lines 743-744), and this inside the
  loop, so the map is handed from item to item.
\<close>

fun import_actions :: "env \<Rightarrow> string \<Rightarrow> string \<Rightarrow> int \<Rightarrow> flat list \<Rightarrow> (int \<rightharpoonup> string) \<Rightarrow> nat
    \<Rightarrow> (action list \<times> string list \<times> (int \<rightharpoonup> string)) outcome" where
  "import_actions e parent_block_uid ord level [] m n = Returned ([], [], m)"
| "import_actions e parent_block_uid ord level (item # items) m n =
     (case heading_of (n_heading_level item) of
        Raised msg \<Rightarrow> Raised msg
      | Returned heading \<Rightarrow>
          (case import_actions e parent_block_uid ord level items
                  (if m level \<noteq> None then m(level \<mapsto> uuid4 e n) else m) (Suc n) of
             Raised msg \<Rightarrow> Raised msg
           | Returned (actions, level_uids, m') \<Rightarrow>
               Returned
                 (Action (parent_of_level m parent_block_uid level)
                    (if level = 0 then ord else ''last'') (n_text item) (uuid4 e n) heading
                  # actions,
                  uuid4 e n # level_uids, m')))"

text \<open>The outer loop (lines 705-757).\<close>

fun import_levels :: "env \<Rightarrow> string \<Rightarrow> string \<Rightarrow> (int \<times> flat list) list \<Rightarrow> int list \<Rightarrow> state
    \<Rightarrow> string option \<times> state" where
  "import_levels e parent_block_uid ord level_items [] s = (None, s)"
| "import_levels e parent_block_uid ord level_items (level # levels) s =
     (case map_of level_items level of
        None \<Rightarrow> (Some ''KeyError'', s)
      | Some items \<Rightarrow>
          (case import_actions e parent_block_uid ord level items (level_parent_map s)
                  (next_uuid s) of
             Raised msg \<Rightarrow> (Some msg, s)
           | Returned (actions, level_uids, m) \<Rightarrow>
               if actions = []
               then import_levels e parent_block_uid ord level_items levels
                      (s\<lparr>level_parent_map := m, next_uuid := next_uuid s + length items\<rparr>)
               else
                 (case execute_write_action e (log s) (Batch actions) of
                    Raised msg \<Rightarrow>
                      (Some msg,
                       s\<lparr>level_parent_map := m, next_uuid := next_uuid s + length items,
                         log := log s @ [Write (Batch actions) (Raised msg)]\<rparr>)
                  | Returned r \<Rightarrow>
                      import_levels e parent_block_uid ord level_items levels
                        (s\<lparr>created :=
                             (case resp_created_uids r of
                                Some uids \<Rightarrow> created s @ uids
                              | None \<Rightarrow>
                                  if resp_success r then created s @ level_uids
                                  else created s),
                           level_parent_map := m,
                           next_uuid := next_uuid s + length items,
                           log := log s @ [Write (Batch actions) (Returned r)]\<rparr>))))"

text \<open>The parent block of an import (lines 626-674).\<close>

definition import_parent_block :: "env \<Rightarrow> string \<Rightarrow> string option \<Rightarrow> string option
    \<Rightarrow> event list \<Rightarrow> (result + string) outcome \<times> event list \<times> nat" where
  "import_parent_block e target_page_uid parent_uid_arg parent_string lg =
     (case given parent_uid_arg of
        Some p \<Rightarrow>
          (case execute_query e p of
             Raised msg \<Rightarrow> (Raised msg, lg @ [ExecuteQuery p (Raised msg)], 0)
           | Returned found \<Rightarrow>
               (Returned (if found then Inr p
                          else Inl (failure (''Block with UID '' @ p @ '' not found''))),
                lg @ [ExecuteQuery p (Returned found)], 0))
      | None \<Rightarrow>
          (case given parent_string of
             None \<Rightarrow> (Returned (Inr target_page_uid), lg, 0)
           | Some ps \<Rightarrow>
               (case find_block_uid e ps of
                  Raised msg \<Rightarrow> (Raised msg, lg @ [FindBlockUid ps (Raised msg)], 0)
                | Returned found_uid \<Rightarrow>
                    (case given found_uid of
                       Some f \<Rightarrow>
                         (Returned (Inr f), lg @ [FindBlockUid ps (Returned found_uid)], 0)
                     | None \<Rightarrow>
                         (let lg = lg @ [FindBlockUid ps (Returned found_uid)];
                              u = uuid4 e 0;
                              action_data = Single (Action target_page_uid ''last'' ps u None)
                          in case execute_write_action e lg action_data of
                               Raised msg \<Rightarrow>
                                 (Raised msg, lg @ [Write action_data (Raised msg)], 1)
                             | Returned r \<Rightarrow>
                                 (case find_block_uid e ps of
                                    Raised msg \<Rightarrow>
                                      (Raised msg,
                                       lg @ [Write action_data (Returned r),
                                             FindBlockUid ps (Raised msg)], 1)
                                  | Returned again \<Rightarrow>
                                      (Returned
                                         (case given again of
                                            Some f \<Rightarrow> Inr f | None \<Rightarrow> Inr u),
                                       lg @ [Write action_data (Returned r),
                                             FindBlockUid ps (Returned again)], 1)))))))"

text \<open>\<^verbatim>\<open>import_markdown\<close> (lines 581-790).\<close>

definition import_markdown :: "env \<Rightarrow> string \<Rightarrow> string option \<Rightarrow> string option \<Rightarrow> string option
    \<Rightarrow> string option \<Rightarrow> string \<Rightarrow> result \<times> event list" where
  "import_markdown e content page_uid_arg page_title parent_uid_arg parent_string ord =
     (if content = [] then (failure ''Content cannot be empty'', [])
      else if ord \<noteq> ''first'' \<and> ord \<noteq> ''last''
      then (failure (''Order must be 'first' or 'last'' @ [CHR 0x27]), [])
      else
        (case target_page e page_uid_arg page_title [] of
           (Raised msg, lg) \<Rightarrow> (failure msg, lg)
         | (Returned target_page_uid, lg) \<Rightarrow>
             (case import_parent_block e target_page_uid parent_uid_arg parent_string lg of
                (Raised msg, lg, n) \<Rightarrow> (failure msg, lg)
              | (Returned (Inl early), lg, n) \<Rightarrow> (early, lg)
              | (Returned (Inr parent_block_uid), lg, n) \<Rightarrow>
                  (let parsed_content = parse_markdown_list e content
                   in if parsed_content = []
                      then (failure ''Failed to parse markdown content'', lg)
                      else
                        (let parsed_content = sort_key n_level parsed_content;
                             level_items = group_by_level parsed_content []
                         in case import_levels e parent_block_uid ord level_items
                                   (sort (map fst level_items))
                                   \<lparr>created = [],
                                    level_parent_map = [- 1 \<mapsto> parent_block_uid],
                                    log = lg, next_uuid = n\<rparr> of
                              (Some msg, s) \<Rightarrow> (failure msg, log s)
                            | (None, s) \<Rightarrow>
                                (\<lparr>success = True, error = None, uid = None,
                                  page_uid = Some target_page_uid,
                                  parent_uid = Some parent_block_uid, block_uid = None,
                                  created_uids = Some (created s), page_url = None\<rparr>,
                                 log s))))))"

subsection \<open>\<^verbatim>\<open>create_nested_blocks\<close>\<close>

text \<open>
  A block of \<^verbatim>\<open>blocks_data\<close>: a text, an integer level and an integer heading
  level, each with the default of its \<^verbatim>\<open>get\<close> when absent, and the children.
\<close>

datatype block = Block (block_text: "string option") (block_level: "int option")
  (block_heading_level: "int option") (block_children: "block list")

definition created_result :: "string list \<Rightarrow> result" where
  "created_result uids =
     \<lparr>success = True, error = None, uid = None, page_uid = None, parent_uid = None,
      block_uid = None, created_uids = Some uids, page_url = None\<rparr>"

text \<open>The action for one block (lines 1082-1109).\<close>

definition nested_action :: "env \<Rightarrow> state \<Rightarrow> string \<Rightarrow> string option \<Rightarrow> int option \<Rightarrow> int option
    \<Rightarrow> action" where
  "nested_action e s parent t l h =
     create_block_action
       (parent_of_level (level_parent_map s) parent (case l of Some n \<Rightarrow> n | None \<Rightarrow> 0))
       ''last'' (case t of Some c \<Rightarrow> c | None \<Rightarrow> []) (uuid4 e (next_uuid s))
       (case h of Some n \<Rightarrow> n | None \<Rightarrow> 0)"

text \<open>
  \<^verbatim>\<open>create_nested_blocks\<close> (lines 1057-1144) and its loop over the blocks, one request
  per block. The call for the children has its own \<^verbatim>\<open>created_uids\<close> and
  \<^verbatim>\<open>level_to_uid\<close> and catches what is raised inside it; the log and the count of
  identifiers go through.
\<close>

fun create_nested_blocks :: "env \<Rightarrow> string \<Rightarrow> block list \<Rightarrow> event list \<times> nat
    \<Rightarrow> result \<times> event list \<times> nat"
  and nested_loop :: "env \<Rightarrow> string \<Rightarrow> block list \<Rightarrow> state \<Rightarrow> string option \<times> state" where
  "create_nested_blocks e parent blocks_data w =
     (if blocks_data = [] then (created_result [], w)
      else
        (case nested_loop e parent blocks_data
                \<lparr>created = [], level_parent_map = [- 1 \<mapsto> parent], log = fst w,
                 next_uuid = snd w\<rparr> of
           (None, s) \<Rightarrow> (created_result (created s), log s, next_uuid s)
         | (Some msg, s) \<Rightarrow>
             ((failure (''Failed to create nested blocks: '' @ msg))
                \<lparr>created_uids := Some (created s)\<rparr>, log s, next_uuid s)))"
| "nested_loop e parent [] s = (None, s)"
| "nested_loop e parent (Block t l h children # blocks) s =
     (case execute_write_action e (log s) (Single (nested_action e s parent t l h)) of
        Raised msg \<Rightarrow>
          (Some msg,
           s\<lparr>next_uuid := Suc (next_uuid s),
             log := log s @ [Write (Single (nested_action e s parent t l h)) (Raised msg)]\<rparr>)
      | Returned r \<Rightarrow>
          if resp_success r
          then
            nested_loop e parent blocks
              (if children \<noteq> []
               then
                 (case create_nested_blocks e (uuid4 e (next_uuid s)) children
                         (log s @ [Write (Single (nested_action e s parent t l h)) (Returned r)],
                          Suc (next_uuid s)) of
                    (children_result, lg, n) \<Rightarrow>
                      s\<lparr>created :=
                          (if success children_result
                           then created s @ [uuid4 e (next_uuid s)]
                                @ (case created_uids children_result of
                                     Some uids \<Rightarrow> uids | None \<Rightarrow> [])
                           else created s @ [uuid4 e (next_uuid s)]),
                        level_parent_map :=
                          (level_parent_map s)
                            ((case l of Some n \<Rightarrow> n | None \<Rightarrow> 0) \<mapsto> uuid4 e (next_uuid s)),
                        log := lg, next_uuid := n\<rparr>)
               else
                 s\<lparr>created := created s @ [uuid4 e (next_uuid s)],
                   level_parent_map :=
                     (level_parent_map s)
                       ((case l of Some n \<Rightarrow> n | None \<Rightarrow> 0) \<mapsto> uuid4 e (next_uuid s)),
                   log := log s @ [Write (Single (nested_action e s parent t l h)) (Returned r)],
                   next_uuid := Suc (next_uuid s)\<rparr>)
          else
            nested_loop e parent blocks
              (s\<lparr>log := log s @ [Write (Single (nested_action e s parent t l h)) (Returned r)],
                 next_uuid := Suc (next_uuid s)\<rparr>))"

section \<open>Reading the log, the outline as the specification words it, and example inputs\<close>

text \<open>
  The flattening as the specification describes it: visit each node, resolve its depth,
  emit it, then its children with the node's depth as their parent depth, then its
  siblings.
\<close>

fun flatten_spec :: "item list \<Rightarrow> int \<Rightarrow> flat list" where
  "flatten_spec [] parent_depth = []"
| "flatten_spec (Item t l h c # items) parent_depth =
     flat_of t l h parent_depth
     # (case c of
          Some (PyList children) \<Rightarrow> flatten_spec children (n_level (flat_of t l h parent_depth))
        | _ \<Rightarrow> [])
     @ flatten_spec items parent_depth"

text \<open>The batches of a log with the answers of the store, in the order they were sent.\<close>

fun batches :: "event list \<Rightarrow> (action list \<times> response outcome) list" where
  "batches [] = []"
| "batches (Write (Batch as) r # evs) = (as, r) # batches evs"
| "batches (ev # evs) = batches evs"

text \<open>The single-action requests of a log.\<close>

fun singles :: "event list \<Rightarrow> (action \<times> response outcome) list" where
  "singles [] = []"
| "singles (Write (Single a) r # evs) = (a, r) # singles evs"
| "singles (ev # evs) = singles evs"

definition raised :: "event \<Rightarrow> bool" where
  "raised ev = (case ev of Write q (Raised msg) \<Rightarrow> True | _ \<Rightarrow> False)"

text \<open>
  The identifiers that the specification keeps for a batch: those of the store when the
  response carries them, the locally generated ones when it only signals success, none
  otherwise.
\<close>

definition reconciled :: "action list \<times> response outcome \<Rightarrow> string list" where
  "reconciled b =
     (case snd b of
        Raised msg \<Rightarrow> []
      | Returned r \<Rightarrow>
          (case resp_created_uids r of
             Some uids \<Rightarrow> uids
           | None \<Rightarrow> if resp_success r then map act_uid (fst b) else []))"

text \<open>A batch failed when the response has neither identifiers nor success.\<close>

definition failed :: "action list \<times> response outcome \<Rightarrow> bool" where
  "failed b =
     (case snd b of
        Raised msg \<Rightarrow> False
      | Returned r \<Rightarrow> resp_created_uids r = None \<and> \<not> resp_success r)"

text \<open>The levels of a list of items, ascending.\<close>

definition levels_of :: "flat list \<Rightarrow> int list" where
  "levels_of items = sort (remdups (map n_level items))"

text \<open>
  An example graph: the page \<open>ROOT1\<close>, identifiers \<open>b\<close>, \<open>b1\<close>, \<open>b11\<close>, ..., a
  store \<open>w\<close> and a parser \<open>p\<close>.
\<close>

definition graph :: "(event list \<Rightarrow> request \<Rightarrow> response outcome) \<Rightarrow> (string \<Rightarrow> flat list) \<Rightarrow> env" where
  "graph w p =
     \<lparr>find_or_create_page = (\<lambda>t. Returned ''ROOT1''),
      get_daily_page = Returned ''DAILY'',
      find_page_by_title = (\<lambda>t. Returned None),
      execute_query = (\<lambda>u. Returned True),
      find_block_uid = (\<lambda>t. Returned None),
      execute_write_action = w,
      uuid4 = (\<lambda>n. CHR ''b'' # replicate n CHR ''1''),
      parse_markdown_list = p,
      GRAPH_NAME = ''g''\<rparr>"

text \<open>Stores: one that accepts everything without returning identifiers, one that returns
  the identifiers \<open>a1\<close>, \<open>a2\<close>, one that fails every batch of more than one action, one
  that raises from the second write on.\<close>

definition accepting :: "event list \<Rightarrow> request \<Rightarrow> response outcome" where
  "accepting h q = Returned (Response None True)"

definition renaming :: "event list \<Rightarrow> request \<Rightarrow> response outcome" where
  "renaming h q = Returned (Response (Some [''a1'', ''a2'']) True)"

definition refusing_pairs :: "event list \<Rightarrow> request \<Rightarrow> response outcome" where
  "refusing_pairs h q =
     (case q of
        Batch (a # b # as) \<Rightarrow> Returned (Response None False)
      | _ \<Rightarrow> Returned (Response None True))"

definition raising_later :: "event list \<Rightarrow> request \<Rightarrow> response outcome" where
  "raising_later h q =
     (if batches h = [] \<and> singles h = [] then Returned (Response None True)
      else Raised ''TransactionError'')"

definition no_parser :: "string \<Rightarrow> flat list" where
  "no_parser s = []"

definition node :: "string \<Rightarrow> int \<Rightarrow> item" where
  "node t d = Item (Some (PStr t)) (Some (PInt d)) None None"

definition line :: "string \<Rightarrow> int \<Rightarrow> flat" where
  "line t d = \<lparr>n_text = t, n_level = d, n_heading_level = PInt 0\<rparr>"

text \<open>The outline A (0), B (1), C (1), D (2) as content of a page and as parsed lines.\<close>

definition abcd :: "item list" where
  "abcd = [node ''A'' 0, node ''B'' 1, node ''C'' 1, node ''D'' 2]"

definition abcd_lines :: "string \<Rightarrow> flat list" where
  "abcd_lines s = [line ''A'' 0, line ''B'' 1, line ''C'' 1, line ''D'' 2]"

text \<open>An outline with a gap, and one with two nodes at depth 0 above a third.\<close>

definition gap_outline :: "item list" where
  "gap_outline = [node ''A'' 0, node ''D'' 2]"

definition xyz :: "item list" where
  "xyz = [node ''X'' 0, node ''Y'' 0, node ''Z'' 1]"

text \<open>
  What the validation of \<^verbatim>\<open>create_page\<close> accepts: the text is a string, the level is
  absent or an integer that is not negative, the children are absent or a list of such
  items.
\<close>

fun well_typed :: "item \<Rightarrow> bool" where
  "well_typed (Item t l h c) =
     ((case t of Some (PStr s) \<Rightarrow> True | _ \<Rightarrow> False)
      \<and> (case l of None \<Rightarrow> True | Some (PInt n) \<Rightarrow> 0 \<le> n | Some _ \<Rightarrow> False)
      \<and> (case c of
           None \<Rightarrow> True
         | Some NotAList \<Rightarrow> False
         | Some (PyList children) \<Rightarrow> list_all well_typed children))"


text \<open>A store that refuses the block with the text \<open>bad\<close>, and blocks to try it on.\<close>

definition refusing_bad :: "event list \<Rightarrow> request \<Rightarrow> response outcome" where
  "refusing_bad h q =
     (case q of
        Single a \<Rightarrow> Returned (Response None (act_string a \<noteq> ''bad''))
      | Batch as \<Rightarrow> Returned (Response None True))"

definition leaf :: "string \<Rightarrow> block" where
  "leaf t = Block (Some t) None None []"

definition family :: "block list" where
  "family = [leaf ''one'', Block (Some ''bad'') None None [leaf ''child''], leaf ''two'']"

text \<open>A heading level that the test of line 159 accepts without raising.\<close>

definition plain_heading :: "pyval \<Rightarrow> bool" where
  "plain_heading v = (case heading_of v of Returned h \<Rightarrow> True | Raised msg \<Rightarrow> False)"

text \<open>Content that passes the validation, with the heading level \<open>2\<close> as a string.\<close>

definition headed :: "item list" where
  "headed = [node ''A'' 0, Item (Some (PStr ''H'')) (Some (PInt 1)) (Some (PStr ''2'')) None]"

text \<open>The items of a level in \<^verbatim>\<open>level_items\<close>.\<close>

definition bucket :: "(int \<times> flat list) list \<Rightarrow> int \<Rightarrow> flat list" where
  "bucket level_items level = (case map_of level_items level of Some its \<Rightarrow> its | None \<Rightarrow> [])"

text \<open>
  What the level loop needs of its inner loop when it returns: the identifiers are those
  of the actions, the texts those of the items, no heading level of the items raises, and
  the parent of every action is the entry of the level below, or the root without one.
\<close>

definition sound_build :: "string \<Rightarrow> (int \<times> flat list) list
    \<Rightarrow> ((int \<rightharpoonup> string) \<Rightarrow> int \<Rightarrow> flat list \<Rightarrow> nat \<Rightarrow> (action list \<times> string list) outcome)
    \<Rightarrow> bool" where
  "sound_build root level_items build \<longleftrightarrow>
     (\<forall>m l items n as us.
        build m l items n = Returned (as, us) \<longrightarrow>
        map act_uid as = us
        \<and> map act_string as = map n_text items
        \<and> list_all (\<lambda>x. plain_heading (n_heading_level x)) items
        \<and> (0 \<le> l \<longrightarrow> m (- 1) = Some root
             \<longrightarrow> (\<forall>k\<ge>0. m k \<noteq> None \<longrightarrow> bucket level_items k \<noteq> [])
             \<longrightarrow> (\<forall>a\<in>set as.
                    act_parent_uid a = (case m (l - 1) of Some u \<Rightarrow> u | None \<Rightarrow> root))))"

text \<open>
  The state after the levels \<open>pre\<close>: one batch per level, the root under \<open>- 1\<close>, and
  under each level the identifier of the last action of its batch.
\<close>

definition table_inv :: "string \<Rightarrow> int list \<Rightarrow> state \<Rightarrow> bool" where
  "table_inv root pre s \<longleftrightarrow>
     length (batches (log s)) = length pre
     \<and> level_parent_map s (- 1) = Some root
     \<and> (\<forall>l\<ge>0. l \<notin> set pre \<longrightarrow> level_parent_map s l = None)
     \<and> (\<forall>j<length pre.
          level_parent_map s (pre ! j) = Some (act_uid (last (fst (batches (log s) ! j)))))"

text \<open>
  Batch \<open>i\<close> is for the items of level \<open>levels ! i\<close>, none of which has a heading
  level that raises; they hang under the root when no
  earlier level is one below, and under the last action of the batch of that level
  otherwise.
\<close>

definition wired :: "string \<Rightarrow> (int \<times> flat list) list \<Rightarrow> int list
    \<Rightarrow> (action list \<times> response outcome) list \<Rightarrow> nat \<Rightarrow> bool" where
  "wired root level_items levels bs i \<longleftrightarrow>
     map act_string (fst (bs ! i)) = map n_text (bucket level_items (levels ! i))
     \<and> list_all (\<lambda>x. plain_heading (n_heading_level x)) (bucket level_items (levels ! i))
     \<and> (levels ! i - 1 \<notin> set (take i levels)
          \<longrightarrow> (\<forall>a\<in>set (fst (bs ! i)). act_parent_uid a = root))
     \<and> (\<forall>j<i. levels ! j = levels ! i - 1
          \<longrightarrow> (\<forall>a\<in>set (fst (bs ! i)). act_parent_uid a = act_uid (last (fst (bs ! j)))))"


section \<open>Properties\<close>

subsection \<open>Flattening\<close>

lemma flatten_content_append:
  "flatten_content items parent_level acc = acc @ flatten_spec items parent_level"
proof (induction items parent_level arbitrary: acc rule: flatten_spec.induct)
  case (1 parent_depth)
  show ?case by simp
next
  case (2 t l h c items parent_depth)
  show ?case
  proof (cases c)
    case None
    then show ?thesis using "2.IH"(2) by simp
  next
    case (Some k)
    show ?thesis
    proof (cases k)
      case NotAList
      then show ?thesis using Some "2.IH"(2) by simp
    next
      case (PyList children)
      then show ?thesis
        using Some "2.IH"(1) [OF Some PyList] "2.IH"(2) by (cases "children = []") simp_all
    qed
  qed
qed

text \<open>
  Claim C9. Flattening is a function of the input tree alone: a call of
  \<^verbatim>\<open>flatten_content\<close> leaves what the list held and appends the nodes of the tree in
  pre-order, with texts, resolved depths and heading ranks, whatever the list held before;
  so two calls on the same tree append the same sequence.
\<close>

theorem flatten_content_pure:
  "flatten_content items parent_level acc = acc @ flatten_content items parent_level []
   \<and> flatten_content items parent_level [] = flatten_spec items parent_level"
  using flatten_content_append [of items parent_level acc]
    flatten_content_append [of items parent_level "[]"] by simp

subsection \<open>Evaluating the entry points\<close>

lemmas run_simps = create_page_def create_block_def create_outline_def import_markdown_def
  graph_def accepting_def renaming_def refusing_pairs_def raising_later_def no_parser_def
  node_def line_def abcd_def abcd_lines_def gap_outline_def xyz_def flat_of_def parent_of_level_def
  create_block_action_def heading_of_def type_error_def Let_def failure_def created_result_def target_page_def given_def
  import_parent_block_def outline_page_def outline_parent_block_def outline_parent_def
  nested_action_def refusing_bad_def leaf_def family_def headed_def plain_heading_def

text \<open>
  Claim C2, for the outline A (0), B (1), C (1), D (2) under \<open>ROOT1\<close>:
  \<^verbatim>\<open>import_markdown\<close> sends the three batches, and every action of every batch has
  the parent \<open>ROOT1\<close>; B, C and D are not attached below A and C.
\<close>

theorem import_markdown_parents_root:
  "map (\<lambda>b. map (\<lambda>a. (act_string a, act_parent_uid a)) (fst b))
     (batches (snd (import_markdown (graph accepting abcd_lines) ''- A'' (Some ''ROOT1'')
                      None None None ''last'')))
   = [[(''A'', ''ROOT1'')], [(''B'', ''ROOT1''), (''C'', ''ROOT1'')], [(''D'', ''ROOT1'')]]"
  by (simp add: run_simps)

text \<open>On the same outline \<^verbatim>\<open>create_page\<close> attaches B and C below A, and D below C.\<close>

lemma create_page_abcd:
  "map (\<lambda>b. map (\<lambda>a. (act_string a, act_parent_uid a, act_uid a)) (fst b))
     (batches (snd (create_page (graph accepting no_parser) ''T'' (Some abcd))))
   = [[(''A'', ''ROOT1'', ''b'')], [(''B'', ''b'', ''b1''), (''C'', ''b'', ''b11'')],
      [(''D'', ''b11'', ''b111'')]]"
  by (simp add: run_simps)

text \<open>
  Claim C4, for \<^verbatim>\<open>create_page\<close> with a block at level 0 and one at level 1, and a
  store that creates the first batch and raises on the second: the result is the failure
  dictionary with the message only; the identifier \<open>b\<close> of the block that was created
  is not in it.
\<close>

theorem create_page_drops_created:
  "create_page (graph raising_later no_parser) ''T'' (Some [node ''A'' 0, node ''B'' 1])
   = (\<lparr>success = False, error = Some ''TransactionError'', uid = None, page_uid = None,
       parent_uid = None, block_uid = None, created_uids = None, page_url = None\<rparr>,
      [FindOrCreatePage ''T'' (Returned ''ROOT1''),
       Write (Batch [Action ''ROOT1'' ''last'' ''A'' ''b'' None]) (Returned (Response None True)),
       Write (Batch [Action ''b'' ''last'' ''B'' ''b1'' None]) (Raised ''TransactionError'')])"
  by (simp add: run_simps)

text \<open>
  Claim C8 as stated fails for \<^verbatim>\<open>create_outline\<close>: the empty outline is not a
  success there.
\<close>

theorem create_outline_empty_no_success:
  "\<not> (success (fst (create_outline (graph accepting no_parser) [] None None))
      \<and> created_uids (fst (create_outline (graph accepting no_parser) [] None None)) = Some [])"
  by (simp add: run_simps)

text \<open>
  Claim C8, amended. For an empty outline \<^verbatim>\<open>create_nested_blocks\<close> returns success
  with an empty list of created identifiers and calls nothing (the log and the count of
  identifiers are as before); \<^verbatim>\<open>create_outline\<close> returns no success and the error
  \<open>Outline cannot be empty\<close>, and calls nothing either.
\<close>

theorem empty_outline:
  "create_nested_blocks e parent [] w =
     (\<lparr>success = True, error = None, uid = None, page_uid = None, parent_uid = None,
       block_uid = None, created_uids = Some [], page_url = None\<rparr>, w)
   \<and> create_outline e [] page_title_uid block_text_uid =
     (\<lparr>success = False, error = Some ''Outline cannot be empty'', uid = None, page_uid = None,
       parent_uid = None, block_uid = None, created_uids = None, page_url = None\<rparr>, [])"
  by (simp add: create_outline_def created_result_def failure_def)

subsection \<open>The level loop\<close>

lemma batches_append: "batches (xs @ ys) = batches xs @ batches ys"
  by (induction xs rule: batches.induct) simp_all

lemma level_actions_uids:
  "level_actions e root m l items n = Returned (as, us) \<Longrightarrow> map act_uid as = us"
proof (induction items arbitrary: n as us)
  case Nil
  then show ?case by simp
next
  case (Cons x xs)
  from Cons.prems obtain hd as' us' where
    "level_actions e root m l xs (Suc n) = Returned (as', us')"
    and "as = Action (parent_of_level m root l) ''last'' (n_text x) (uuid4 e n) hd # as'"
    and "us = uuid4 e n # us'"
    by (auto split: outcome.splits)
  with Cons.IH show ?case by simp
qed

lemma level_actions_strings:
  "level_actions e root m l items n = Returned (as, us) \<Longrightarrow>
     map act_string as = map n_text items"
proof (induction items arbitrary: n as us)
  case Nil
  then show ?case by simp
next
  case (Cons x xs)
  from Cons.prems obtain hd as' us' where
    "level_actions e root m l xs (Suc n) = Returned (as', us')"
    and "as = Action (parent_of_level m root l) ''last'' (n_text x) (uuid4 e n) hd # as'"
    by (auto split: outcome.splits)
  with Cons.IH show ?case by simp
qed

lemma level_actions_parent:
  "level_actions e root m l items n = Returned (as, us) \<Longrightarrow> a \<in> set as \<Longrightarrow>
     act_parent_uid a = parent_of_level m root l"
proof (induction items arbitrary: n as us)
  case Nil
  then show ?case by simp
next
  case (Cons x xs)
  from Cons.prems(1) obtain hd as' us' where
    "level_actions e root m l xs (Suc n) = Returned (as', us')"
    and "as = Action (parent_of_level m root l) ''last'' (n_text x) (uuid4 e n) hd # as'"
    by (auto split: outcome.splits)
  with Cons.IH Cons.prems(2) show ?case by auto
qed

lemma level_actions_plain:
  "level_actions e root m l items n = Returned x \<Longrightarrow>
     list_all (\<lambda>x. plain_heading (n_heading_level x)) items"
proof (induction items arbitrary: n x)
  case Nil
  show ?case by simp
next
  case (Cons y ys)
  from Cons.prems obtain hd z where "heading_of (n_heading_level y) = Returned hd"
    and "level_actions e root m l ys (Suc n) = Returned z"
    by (auto split: outcome.splits)
  with Cons.IH show ?case by (simp add: plain_heading_def)
qed

lemma level_actions_total:
  "list_all (\<lambda>x. plain_heading (n_heading_level x)) items \<Longrightarrow>
     \<exists>x. level_actions e root m l items n = Returned x"
proof (induction items arbitrary: n)
  case Nil
  show ?case by simp
next
  case (Cons y ys)
  from Cons.prems obtain hd where "heading_of (n_heading_level y) = Returned hd"
    by (auto simp add: plain_heading_def split: outcome.splits)
  moreover from Cons.prems Cons.IH [of "Suc n"] obtain z where
    "level_actions e root m l ys (Suc n) = Returned z" by auto
  ultimately show ?case by (cases z) simp
qed

lemma sound_level_actions: "sound_build root li (level_actions e root)"
  unfolding sound_build_def
proof (intro allI impI conjI ballI)
  fix m l items n as us a
  assume b: "level_actions e root m l items n = Returned (as, us)"
  show "map act_uid as = us" using b by (rule level_actions_uids)
  show "map act_string as = map n_text items" using b by (rule level_actions_strings)
  show "list_all (\<lambda>x. plain_heading (n_heading_level x)) items"
    using b by (rule level_actions_plain)
  assume "0 \<le> l" and "a \<in> set as"
  with level_actions_parent [OF b]
  show "act_parent_uid a = (case m (l - 1) of Some u \<Rightarrow> u | None \<Rightarrow> root)"
    by (simp add: parent_of_level_def Let_def)
qed

lemma sound_build_uids:
  assumes "sound_build root li build" "build m l items n = Returned (as, us)"
  shows "map act_uid as = us"
  using assms unfolding sound_build_def by simp

lemma sound_build_strings:
  assumes "sound_build root li build" "build m l items n = Returned (as, us)"
  shows "map act_string as = map n_text items"
proof -
  from assms(1) have "build m l items n = Returned (as, us) \<longrightarrow>
      map act_string as = map n_text items"
    unfolding sound_build_def by simp
  with assms(2) show ?thesis by simp
qed

lemma sound_build_plain:
  assumes "sound_build root li build" "build m l items n = Returned (as, us)"
  shows "list_all (\<lambda>x. plain_heading (n_heading_level x)) items"
proof -
  from assms(1) have "build m l items n = Returned (as, us) \<longrightarrow>
      list_all (\<lambda>x. plain_heading (n_heading_level x)) items"
    unfolding sound_build_def by simp
  with assms(2) show ?thesis by simp
qed

lemma sound_build_parent:
  assumes "sound_build root li build" "build m l items n = Returned (as, us)"
    and "0 \<le> l" "m (- 1) = Some root" "\<forall>k\<ge>0. m k \<noteq> None \<longrightarrow> bucket li k \<noteq> []"
    and "a \<in> set as"
  shows "act_parent_uid a = (case m (l - 1) of Some u \<Rightarrow> u | None \<Rightarrow> root)"
proof -
  from assms(1) have "build m l items n = Returned (as, us) \<longrightarrow> 0 \<le> l \<longrightarrow> m (- 1) = Some root
             \<longrightarrow> (\<forall>k\<ge>0. m k \<noteq> None \<longrightarrow> bucket li k \<noteq> [])
             \<longrightarrow> (\<forall>a\<in>set as.
                    act_parent_uid a = (case m (l - 1) of Some u \<Rightarrow> u | None \<Rightarrow> root))"
    unfolding sound_build_def by simp
  with assms(2-) show ?thesis by simp
qed

lemma wired_append:
  assumes "i < length pre" "i < length bs"
  shows "wired root li (pre @ xs) (bs @ ys) i = wired root li pre bs i"
  using assms by (simp add: wired_def nth_append)

lemma wired_new:
  assumes sb: "sound_build root li build"
    and inv: "table_inv root pre s"
    and l: "0 \<le> l" and bl: "map_of li l = Some items"
    and has: "\<forall>k\<in>set pre. bucket li k \<noteq> []"
    and b: "build (level_parent_map s) l items n = Returned (as, us)"
  shows "wired root li (pre @ l # ls) (batches (log s) @ [(as, r)]) (length pre)"
proof -
  let ?m = "level_parent_map s"
  have len: "length (batches (log s)) = length pre"
    using inv by (simp add: table_inv_def)
  have root: "?m (- 1) = Some root"
    using inv by (simp add: table_inv_def)
  have none: "\<forall>k\<ge>0. k \<notin> set pre \<longrightarrow> ?m k = None"
    using inv by (simp add: table_inv_def)
  have some: "\<forall>j<length pre.
      ?m (pre ! j) = Some (act_uid (last (fst (batches (log s) ! j))))"
    using inv by (simp add: table_inv_def)
  have filled: "\<forall>k\<ge>0. ?m k \<noteq> None \<longrightarrow> bucket li k \<noteq> []"
  proof (intro allI impI)
    fix k :: int assume k: "0 \<le> k" and nn: "?m k \<noteq> None"
    have "k \<in> set pre"
    proof (rule ccontr)
      assume "k \<notin> set pre"
      with none k have "?m k = None" by simp
      with nn show False by simp
    qed
    with has show "bucket li k \<noteq> []" by simp
  qed
  have par: "act_parent_uid a = (case ?m (l - 1) of Some u \<Rightarrow> u | None \<Rightarrow> root)"
    if "a \<in> set as" for a
    using sound_build_parent [OF sb b l root filled that] .
  have str: "map act_string as = map n_text items"
    using sb b by (rule sound_build_strings)
  have q0: "map act_string as = map n_text (bucket li l)"
    using str bl by (simp add: bucket_def)
  have qp: "list_all (\<lambda>x. plain_heading (n_heading_level x)) (bucket li l)"
    using sound_build_plain [OF sb b] bl by (simp add: bucket_def)
  have q1: "act_parent_uid a = root" if np: "l - 1 \<notin> set pre" and a: "a \<in> set as" for a
  proof (cases "l = 0")
    case True
    then have "?m (l - 1) = Some root" using root by simp
    with par [OF a] show ?thesis by simp
  next
    case False
    with l have "0 \<le> l - 1" by simp
    with np none have "?m (l - 1) = None" by simp
    with par [OF a] show ?thesis by simp
  qed
  have q2: "act_parent_uid a = act_uid (last (fst (batches (log s) ! j)))"
    if j: "j < length pre" and e: "pre ! j = l - 1" and a: "a \<in> set as" for j a
  proof -
    from some j have "?m (pre ! j) = Some (act_uid (last (fst (batches (log s) ! j))))"
      by simp
    then have "?m (l - 1) = Some (act_uid (last (fst (batches (log s) ! j))))"
      unfolding e .
    with par [OF a] show ?thesis by simp
  qed
  have at: "(batches (log s) @ [(as, r)]) ! length pre = (as, r)"
    using len by (simp add: nth_append)
  have lv: "(pre @ l # ls) ! length pre = l" by simp
  have tk: "take (length pre) (pre @ l # ls) = pre" by simp
  show ?thesis
    unfolding wired_def at lv tk fst_conv
  proof (intro conjI impI allI ballI)
    show "map act_string as = map n_text (bucket li l)" by (rule q0)
  next
    show "list_all (\<lambda>x. plain_heading (n_heading_level x)) (bucket li l)" by (rule qp)
  next
    fix a assume "l - 1 \<notin> set pre" "a \<in> set as"
    then show "act_parent_uid a = root" by (rule q1)
  next
    fix j a
    assume j: "j < length pre" and e: "(pre @ l # ls) ! j = l - 1" and a: "a \<in> set as"
    from j e have "pre ! j = l - 1" by (simp add: nth_append)
    from q2 [OF j this a] j len
    show "act_parent_uid a = act_uid (last (fst ((batches (log s) @ [(as, r)]) ! j)))"
      by (simp add: nth_append)
  qed
qed

lemma table_inv_step:
  assumes sb: "sound_build root li build"
    and inv: "table_inv root pre s"
    and l: "0 \<le> l" and fresh: "l \<notin> set pre" and dist: "distinct pre"
    and b: "build (level_parent_map s) l items n = Returned (as, us)" and ne: "as \<noteq> []"
  shows "table_inv root (pre @ [l])
           (s\<lparr>created := c,
              level_parent_map := (if us \<noteq> [] then (level_parent_map s)(l \<mapsto> last us)
                                   else level_parent_map s),
              next_uuid := k,
              log := log s @ [Write (Batch as) (Returned r)]\<rparr>)"
proof -
  have us: "map act_uid as = us"
    using sb b by (rule sound_build_uids)
  with ne have usne: "us \<noteq> []" by auto
  have lastu: "last us = act_uid (last as)"
    using us ne by (metis last_map)
  have len: "length (batches (log s)) = length pre"
    using inv by (simp add: table_inv_def)
  have old: "\<And>j. j < length pre \<Longrightarrow> pre ! j \<noteq> l"
    using fresh by (metis nth_mem)
  let ?s' = "s\<lparr>created := c,
              level_parent_map := (if us \<noteq> [] then (level_parent_map s)(l \<mapsto> last us)
                                   else level_parent_map s),
              next_uuid := k,
              log := log s @ [Write (Batch as) (Returned r)]\<rparr>"
  have bs: "batches (log ?s') = batches (log s) @ [(as, Returned r)]"
    by (simp add: batches_append)
  have m: "level_parent_map ?s' = (level_parent_map s)(l \<mapsto> act_uid (last as))"
    using usne lastu by simp
  have i1: "length (batches (log ?s')) = length (pre @ [l])"
    unfolding bs using len by simp
  have i2: "level_parent_map ?s' (- 1) = Some root"
    unfolding m using inv l by (simp add: table_inv_def)
  have i3: "\<forall>k\<ge>0. k \<notin> set (pre @ [l]) \<longrightarrow> level_parent_map ?s' k = None"
    unfolding m using inv by (simp add: table_inv_def)
  have i4: "\<forall>j<length (pre @ [l]).
      level_parent_map ?s' ((pre @ [l]) ! j) = Some (act_uid (last (fst (batches (log ?s') ! j))))"
  proof (intro allI impI)
    fix j assume j: "j < length (pre @ [l])"
    show "level_parent_map ?s' ((pre @ [l]) ! j)
        = Some (act_uid (last (fst (batches (log ?s') ! j))))"
    proof (cases "j < length pre")
      case True
      with inv have "level_parent_map s (pre ! j)
          = Some (act_uid (last (fst (batches (log s) ! j))))"
        by (simp add: table_inv_def)
      with True old [OF True] len show ?thesis
        unfolding m bs by (simp add: nth_append)
    next
      case False
      with j have "j = length pre" by simp
      with len show ?thesis unfolding m bs by (simp add: nth_append)
    qed
  qed
  show ?thesis
    unfolding table_inv_def using i1 i2 i3 i4 by blast
qed


lemma process_levels_wired:
  assumes sb: "sound_build root li build"
  shows "process_levels e build li ls s = (r, s') \<Longrightarrow>
     table_inv root pre s \<Longrightarrow>
     \<forall>i<length pre. wired root li (pre @ ls) (batches (log s)) i \<Longrightarrow>
     distinct (pre @ ls) \<Longrightarrow>
     \<forall>l\<in>set (pre @ ls). 0 \<le> l \<and> bucket li l \<noteq> [] \<Longrightarrow>
     (r = None \<longrightarrow> table_inv root (pre @ ls) s')
     \<and> length (batches (log s')) \<le> length (pre @ ls)
     \<and> (\<forall>i<length (batches (log s')). wired root li (pre @ ls) (batches (log s')) i)"
proof (induction ls arbitrary: pre s)
  case Nil
  then show ?case by (simp add: table_inv_def)
next
  case (Cons l ls)
  have l0: "0 \<le> l" and bne: "bucket li l \<noteq> []" using Cons.prems(5) by simp_all
  from bne obtain items where it: "map_of li l = Some items" and ine: "items \<noteq> []"
    by (auto simp add: bucket_def split: option.splits)
  have len: "length (batches (log s)) = length pre"
    using Cons.prems(2) by (simp add: table_inv_def)
  show ?case
  proof (cases "build (level_parent_map s) l items (next_uuid s)")
  case (Raised msg)
  with Cons.prems(1) it have "r = Some msg" "s' = s" by simp_all
  with len Cons.prems(3) show ?thesis by simp
  next
  case built: (Returned p)
  obtain as us where "p = (as, us)" by (cases p)
  with built have b: "build (level_parent_map s) l items (next_uuid s) = Returned (as, us)"
    by simp
  have str: "map act_string as = map n_text items"
    using sb b by (rule sound_build_strings)
  with ine have ane: "as \<noteq> []" by auto
  have fresh: "l \<notin> set pre" and dpre: "distinct pre" using Cons.prems(4) by simp_all
  have has: "\<forall>k\<in>set pre. bucket li k \<noteq> []" using Cons.prems(5) by simp
  have new: "wired root li (pre @ l # ls) (batches (log s) @ [(as, x)]) (length pre)" for x
    using sb Cons.prems(2) l0 it has b by (rule wired_new)
  have old: "wired root li (pre @ l # ls) (batches (log s) @ [(as, x)]) i"
    if "i < length pre" for i x
  proof -
    from that Cons.prems(3) have w: "wired root li (pre @ l # ls) (batches (log s)) i" by simp
    have "wired root li (pre @ l # ls) (batches (log s) @ [(as, x)]) i
        = wired root li pre (batches (log s)) i"
      using that len by (simp add: wired_append)
    moreover have "wired root li (pre @ l # ls) (batches (log s)) i
        = wired root li pre (batches (log s)) i"
      using that len wired_append [of i pre "batches (log s)" root li "l # ls" "[]"] by simp
    ultimately show ?thesis using w by simp
  qed
  have all: "wired root li (pre @ l # ls) (batches (log s) @ [(as, x)]) i"
    if "i < Suc (length pre)" for i x
    using that old [of i x] new [of x] by (cases "i < length pre") (simp_all add: less_Suc_eq)
  show ?thesis
  proof (cases "execute_write_action e (log s) (Batch as)")
    case (Raised msg)
    with Cons.prems(1) it b ane
    have r: "r = Some msg"
      and s': "s' = s\<lparr>next_uuid := next_uuid s + length items,
                      log := log s @ [Write (Batch as) (Raised msg)]\<rparr>"
      by simp_all
    have bs: "batches (log s') = batches (log s) @ [(as, Raised msg)]"
      unfolding s' by (simp add: batches_append)
    show ?thesis
      unfolding bs using r len all by simp
  next
    case (Returned rr)
    let ?s1 = "s\<lparr>created :=
                   (case resp_created_uids rr of
                      Some uids \<Rightarrow> created s @ uids
                    | None \<Rightarrow> if resp_success rr then created s @ us else created s),
                 level_parent_map :=
                   (if us \<noteq> [] then (level_parent_map s)(l \<mapsto> last us)
                    else level_parent_map s),
                 next_uuid := next_uuid s + length items,
                 log := log s @ [Write (Batch as) (Returned rr)]\<rparr>"
    from Returned Cons.prems(1) it b ane
    have run: "process_levels e build li ls ?s1 = (r, s')" by simp
    have inv1: "table_inv root (pre @ [l]) ?s1"
      using sb Cons.prems(2) l0 fresh dpre b ane by (rule table_inv_step)
    have bs1: "batches (log ?s1) = batches (log s) @ [(as, Returned rr)]"
      by (simp add: batches_append)
    have w1: "\<forall>i<length (pre @ [l]). wired root li ((pre @ [l]) @ ls) (batches (log ?s1)) i"
      unfolding bs1 using all by simp
    have d1: "distinct ((pre @ [l]) @ ls)" using Cons.prems(4) by simp
    have h1: "\<forall>k\<in>set ((pre @ [l]) @ ls). 0 \<le> k \<and> bucket li k \<noteq> []"
      using Cons.prems(5) by simp
    from Cons.IH [OF run inv1 w1 d1 h1] show ?thesis by simp
  qed
  qed
qed


lemma process_levels_created:
  assumes sb: "sound_build root li build"
  shows "process_levels e build li ls s = (None, s') \<Longrightarrow>
     \<exists>bs. batches (log s') = batches (log s) @ bs
          \<and> created s' = created s @ concat (map reconciled bs)"
proof (induction ls arbitrary: s)
  case Nil
  then show ?case by simp
next
  case (Cons l ls)
  from Cons.prems obtain items where it: "map_of li l = Some items"
    by (cases "map_of li l") simp_all
  from Cons.prems it obtain as us where
    b: "build (level_parent_map s) l items (next_uuid s) = Returned (as, us)"
    by (cases "build (level_parent_map s) l items (next_uuid s)") auto
  have us: "map act_uid as = us" using sb b by (rule sound_build_uids)
  show ?case
  proof (cases "as = []")
    case True
    with Cons.prems it b
    have "process_levels e build li ls (s\<lparr>next_uuid := next_uuid s + length items\<rparr>) = (None, s')"
      by simp
    from Cons.IH [OF this] show ?thesis by simp
  next
    case False
    show ?thesis
    proof (cases "execute_write_action e (log s) (Batch as)")
      case (Raised msg)
      with Cons.prems it b False show ?thesis by simp
    next
      case (Returned rr)
      let ?s1 = "s\<lparr>created :=
                     (case resp_created_uids rr of
                        Some uids \<Rightarrow> created s @ uids
                      | None \<Rightarrow> if resp_success rr then created s @ us else created s),
                   level_parent_map :=
                     (if us \<noteq> [] then (level_parent_map s)(l \<mapsto> last us)
                      else level_parent_map s),
                   next_uuid := next_uuid s + length items,
                   log := log s @ [Write (Batch as) (Returned rr)]\<rparr>"
      from Returned Cons.prems it b False
      have run: "process_levels e build li ls ?s1 = (None, s')" by simp
      from Cons.IH [OF run] obtain bs where
        bs: "batches (log s') = batches (log ?s1) @ bs"
        and cr: "created s' = created ?s1 @ concat (map reconciled bs)" by blast
      have b1: "batches (log ?s1) = batches (log s) @ [(as, Returned rr)]"
        by (simp add: batches_append)
      have c1: "created ?s1 = created s @ reconciled (as, Returned rr)"
        using us by (simp add: reconciled_def split: option.splits)
      have "batches (log s') = batches (log s) @ ((as, Returned rr) # bs)"
        using bs b1 by simp
      moreover have "created s' = created s @ concat (map reconciled ((as, Returned rr) # bs))"
        using cr c1 by simp
      ultimately show ?thesis by blast
    qed
  qed
qed

lemma process_levels_raise:
  "process_levels e build li ls s = (r, s') \<Longrightarrow>
     \<forall>ev\<in>set (log s). \<not> raised ev \<Longrightarrow>
     (r = None \<longrightarrow> (\<forall>ev\<in>set (log s'). \<not> raised ev))
     \<and> (\<forall>i<length (log s'). raised (log s' ! i) \<longrightarrow> Suc i = length (log s'))"
proof (induction ls arbitrary: s)
  case Nil
  then show ?case by (auto simp add: all_set_conv_all_nth)
next
  case (Cons l ls)
  have quiet: "\<forall>i<length (log s). \<not> raised (log s ! i)"
    using Cons.prems(2) by simp
  show ?case
  proof (cases "map_of li l")
    case None
    with Cons.prems(1) have "r = Some ''KeyError''" "s' = s" by simp_all
    with quiet show ?thesis by simp
  next
    case it: (Some items)
    show ?thesis
    proof (cases "build (level_parent_map s) l items (next_uuid s)")
      case (Raised msg)
      with Cons.prems(1) it have "r = Some msg" "s' = s" by simp_all
      with quiet show ?thesis by simp
    next
      case built: (Returned p)
      obtain as us where "p = (as, us)" by (cases p)
      with built have b: "build (level_parent_map s) l items (next_uuid s) = Returned (as, us)"
        by simp
      show ?thesis
      proof (cases "as = []")
        case True
        let ?s1 = "s\<lparr>next_uuid := next_uuid s + length items\<rparr>"
        from True Cons.prems(1) it b
        have run: "process_levels e build li ls ?s1 = (r, s')" by simp
        have "\<forall>ev\<in>set (log ?s1). \<not> raised ev" using Cons.prems(2) by simp
        from Cons.IH [OF run this] show ?thesis .
      next
        case False
        show ?thesis
        proof (cases "execute_write_action e (log s) (Batch as)")
          case (Raised msg)
          with Cons.prems(1) it b False
          have r: "r = Some msg"
            and s': "log s' = log s @ [Write (Batch as) (Raised msg)]"
            by auto
          from quiet show ?thesis
            unfolding s' using r by (auto simp add: nth_append raised_def less_Suc_eq)
        next
          case (Returned rr)
          let ?s1 = "s\<lparr>created :=
                         (case resp_created_uids rr of
                            Some uids \<Rightarrow> created s @ uids
                          | None \<Rightarrow> if resp_success rr then created s @ us else created s),
                       level_parent_map :=
                         (if us \<noteq> [] then (level_parent_map s)(l \<mapsto> last us)
                          else level_parent_map s),
                       next_uuid := next_uuid s + length items,
                       log := log s @ [Write (Batch as) (Returned rr)]\<rparr>"
          from Returned Cons.prems(1) it b False
          have run: "process_levels e build li ls ?s1 = (r, s')" by simp
          have "\<forall>ev\<in>set (log ?s1). \<not> raised ev"
            using Cons.prems(2) by (simp add: raised_def)
          from Cons.IH [OF run this] show ?thesis .
        qed
      qed
    qed
  qed
qed

text \<open>When the inner loop returns for every level, the loop ends early only on a raised write.\<close>

lemma process_levels_stops:
  "process_levels e build li ls s = (r, s') \<Longrightarrow> r \<noteq> None \<Longrightarrow>
     \<forall>l\<in>set ls. \<exists>items. map_of li l = Some items
        \<and> (\<forall>m n. \<exists>x. build m l items n = Returned x) \<Longrightarrow>
     log s' \<noteq> [] \<and> raised (last (log s'))"
proof (induction ls arbitrary: s)
  case Nil
  then show ?case by simp
next
  case (Cons l ls)
  from Cons.prems(3) obtain items where it: "map_of li l = Some items"
    and tot: "\<forall>m n. \<exists>x. build m l items n = Returned x" by auto
  from tot obtain p where "build (level_parent_map s) l items (next_uuid s) = Returned p"
    by blast
  moreover obtain as us where "p = (as, us)" by (cases p)
  ultimately have b: "build (level_parent_map s) l items (next_uuid s) = Returned (as, us)"
    by simp
  have rest: "\<forall>l\<in>set ls. \<exists>items. map_of li l = Some items
        \<and> (\<forall>m n. \<exists>x. build m l items n = Returned x)"
    using Cons.prems(3) by simp
  show ?case
  proof (cases "as = []")
    case True
    from True Cons.prems(1) it b
    have "process_levels e build li ls (s\<lparr>next_uuid := next_uuid s + length items\<rparr>)
        = (r, s')" by simp
    from Cons.IH [OF this Cons.prems(2) rest] show ?thesis .
  next
    case False
    show ?thesis
    proof (cases "execute_write_action e (log s) (Batch as)")
      case (Raised msg)
      with Cons.prems(1) it b False
      have "log s' = log s @ [Write (Batch as) (Raised msg)]" by auto
      then show ?thesis by (simp add: raised_def)
    next
      case (Returned rr)
      let ?s1 = "s\<lparr>created :=
                     (case resp_created_uids rr of
                        Some uids \<Rightarrow> created s @ uids
                      | None \<Rightarrow> if resp_success rr then created s @ us else created s),
                   level_parent_map :=
                     (if us \<noteq> [] then (level_parent_map s)(l \<mapsto> last us)
                      else level_parent_map s),
                   next_uuid := next_uuid s + length items,
                   log := log s @ [Write (Batch as) (Returned rr)]\<rparr>"
      from Returned Cons.prems(1) it b False
      have "process_levels e build li ls ?s1 = (r, s')" by simp
      from Cons.IH [OF this Cons.prems(2) rest] show ?thesis .
    qed
  qed
qed

lemma group_by_level_map_of:
  "map_of (group_by_level xs li) l =
     (case map_of li l of
        None \<Rightarrow> (if filter (\<lambda>x. n_level x = l) xs = [] then None
                 else Some (filter (\<lambda>x. n_level x = l) xs))
      | Some its \<Rightarrow> Some (its @ filter (\<lambda>x. n_level x = l) xs))"
proof (induction xs arbitrary: li)
  case Nil
  show ?case by (simp split: option.splits)
next
  case (Cons x xs)
  show ?case
    by (cases "map_of li (n_level x)")
       (auto simp add: Cons.IH update_conv' split: option.splits)
qed

lemma group_by_level_distinct:
  "distinct (map fst li) \<Longrightarrow> distinct (map fst (group_by_level xs li))"
  by (induction xs arbitrary: li) (simp_all add: distinct_update split: option.splits)

lemma group_by_level_bucket:
  "bucket (group_by_level xs []) l = filter (\<lambda>x. n_level x = l) xs"
  by (simp add: bucket_def group_by_level_map_of)

lemma group_by_level_keys:
  "fst ` set (group_by_level xs []) = n_level ` set xs"
proof -
  have "l \<in> fst ` set (group_by_level xs []) \<longleftrightarrow> l \<in> n_level ` set xs" for l
  proof -
    have "l \<in> fst ` set (group_by_level xs []) \<longleftrightarrow> map_of (group_by_level xs []) l \<noteq> None"
      by (simp add: map_of_eq_None_iff)
    also have "\<dots> \<longleftrightarrow> filter (\<lambda>x. n_level x = l) xs \<noteq> []"
      by (simp add: group_by_level_map_of)
    also have "\<dots> \<longleftrightarrow> l \<in> n_level ` set xs"
      by (auto simp add: filter_empty_conv)
    finally show ?thesis .
  qed
  then show ?thesis by auto
qed

lemma group_by_level_levels:
  "sort (map fst (group_by_level xs [])) = levels_of xs"
proof -
  have "distinct (map fst (group_by_level xs []))"
    by (rule group_by_level_distinct) simp
  then show ?thesis
    unfolding levels_of_def
    by (intro sorted_distinct_set_unique) (simp_all add: group_by_level_keys)
qed

lemma levels_of_sort_key: "levels_of (sort_key n_level xs) = levels_of xs"
proof -
  have "sort (remdups (map n_level (sort_key n_level xs))) = sort (remdups (map n_level xs))"
    by (intro sorted_distinct_set_unique) simp_all
  then show ?thesis by (simp add: levels_of_def)
qed

lemma set_levels_of: "set (levels_of xs) = n_level ` set xs"
  by (simp add: levels_of_def)

lemma distinct_levels_of: "distinct (levels_of xs)"
  by (simp add: levels_of_def)

lemma validated_levels:
  "validate_children items parent_level = None \<Longrightarrow>
     \<forall>x\<in>set (flatten_spec items parent_level). 0 \<le> n_level x"
proof (induction items parent_level rule: flatten_spec.induct)
  case (1 parent_depth)
  show ?case by simp
next
  case (2 t l h c items parent_depth)
  let ?lv = "n_level (flat_of t l h parent_depth)"
  from "2.prems" have vi: "validate_item (Item t l h c) parent_depth = None"
    and vr: "validate_children items parent_depth = None"
    by (simp_all split: option.splits)
  from vi have lv: "0 \<le> ?lv"
    by (auto simp add: flat_of_def split: option.splits pyval.splits if_splits)
  have kids: "\<forall>x\<in>set (case c of Some (PyList children) \<Rightarrow> flatten_spec children ?lv | _ \<Rightarrow> []).
      0 \<le> n_level x"
  proof (cases c)
    case None
    then show ?thesis by simp
  next
    case (Some k)
    show ?thesis
    proof (cases k)
      case NotAList
      with Some show ?thesis by simp
    next
      case (PyList children)
      from vi Some PyList have "validate_children children ?lv = None"
        by (auto simp add: flat_of_def split: option.splits pyval.splits if_splits)
      from "2.IH"(1) [OF Some PyList this] Some PyList show ?thesis by simp
    qed
  qed
  from "2.IH"(2) [OF vr] lv kids show ?case by auto
qed


lemma table_inv_start:
  "batches lg = [] \<Longrightarrow>
   table_inv root [] \<lparr>created = c, level_parent_map = [- 1 \<mapsto> root], log = lg, next_uuid = n\<rparr>"
  by (simp add: table_inv_def)

text \<open>What a run of the level loop from a log without batches gives.\<close>

lemma level_loop_run:
  assumes sb: "sound_build root (group_by_level xs []) build"
    and run: "process_levels e build (group_by_level xs []) (sort (map fst (group_by_level xs [])))
               \<lparr>created = [], level_parent_map = [- 1 \<mapsto> root], log = lg, next_uuid = n\<rparr>
             = (r, s)"
    and lg: "batches lg = []" "\<forall>ev\<in>set lg. \<not> raised ev"
    and pos: "\<forall>x\<in>set xs. 0 \<le> n_level x"
  shows "length (batches (log s)) \<le> length (levels_of xs)"
    and "r = None \<Longrightarrow> length (batches (log s)) = length (levels_of xs)"
    and "r = None \<Longrightarrow> created s = concat (map reconciled (batches (log s)))"
    and "r = None \<Longrightarrow> \<forall>ev\<in>set (log s). \<not> raised ev"
    and "r \<noteq> None \<Longrightarrow>
         \<forall>l\<in>set (levels_of xs). \<forall>m n.
            \<exists>x. build m l (filter (\<lambda>x. n_level x = l) xs) n = Returned x \<Longrightarrow>
         log s \<noteq> [] \<and> raised (last (log s))"
    and "\<forall>i<length (log s). raised (log s ! i) \<longrightarrow> Suc i = length (log s)"
    and "\<forall>i<length (batches (log s)).
           wired root (group_by_level xs []) (levels_of xs) (batches (log s)) i"
proof -
  let ?li = "group_by_level xs []"
  let ?s0 = "\<lparr>created = [], level_parent_map = [- 1 \<mapsto> root], log = lg, next_uuid = n\<rparr>"
  have lv: "sort (map fst ?li) = levels_of xs" by (rule group_by_level_levels)
  have run': "process_levels e build ?li (levels_of xs) ?s0 = (r, s)"
    using run unfolding lv .
  have inv0: "table_inv root [] ?s0" using lg(1) by (rule table_inv_start)
  have w0: "\<forall>i<length ([]::int list). wired root ?li ([] @ levels_of xs) (batches (log ?s0)) i"
    by simp
  have d0: "distinct ([] @ levels_of xs)" by (simp add: distinct_levels_of)
  have h0: "\<forall>l\<in>set ([] @ levels_of xs). 0 \<le> l \<and> bucket ?li l \<noteq> []"
    using pos by (auto simp add: set_levels_of group_by_level_bucket filter_empty_conv)
  from process_levels_wired [OF sb run' inv0 w0 d0 h0]
  have inv: "r = None \<longrightarrow> table_inv root (levels_of xs) s"
    and le: "length (batches (log s)) \<le> length (levels_of xs)"
    and wi: "\<forall>i<length (batches (log s)). wired root ?li (levels_of xs) (batches (log s)) i"
    by simp_all
  show "length (batches (log s)) \<le> length (levels_of xs)" by (rule le)
  show "\<forall>i<length (batches (log s)). wired root ?li (levels_of xs) (batches (log s)) i"
    by (rule wi)
  show "length (batches (log s)) = length (levels_of xs)" if "r = None"
    using inv that by (simp add: table_inv_def)
  show "created s = concat (map reconciled (batches (log s)))" if "r = None"
  proof -
    from run' that have "process_levels e build ?li (levels_of xs) ?s0 = (None, s)" by simp
    from process_levels_created [OF sb this] lg(1) show ?thesis by auto
  qed
  have keys: "\<forall>l\<in>set (levels_of xs). map_of ?li l \<noteq> None"
  proof
    fix l assume "l \<in> set (levels_of xs)"
    with h0 have "bucket ?li l \<noteq> []" by simp
    then show "map_of ?li l \<noteq> None"
      by (cases "map_of ?li l") (simp_all add: bucket_def)
  qed
  have nr: "\<forall>ev\<in>set (log ?s0). \<not> raised ev" using lg(2) by simp
  from process_levels_raise [OF run' nr]
  show "r = None \<Longrightarrow> \<forall>ev\<in>set (log s). \<not> raised ev"
    and "\<forall>i<length (log s). raised (log s ! i) \<longrightarrow> Suc i = length (log s)"
    by simp_all
  show "log s \<noteq> [] \<and> raised (last (log s))"
    if ne: "r \<noteq> None"
      and tot: "\<forall>l\<in>set (levels_of xs). \<forall>m n.
            \<exists>x. build m l (filter (\<lambda>x. n_level x = l) xs) n = Returned x"
  proof -
    have "\<forall>l\<in>set (levels_of xs). \<exists>items. map_of ?li l = Some items
        \<and> (\<forall>m n. \<exists>x. build m l items n = Returned x)"
    proof
      fix l assume l: "l \<in> set (levels_of xs)"
      with keys obtain items where it: "map_of ?li l = Some items" by auto
      then have "items = bucket ?li l" by (simp add: bucket_def)
      then have "items = filter (\<lambda>x. n_level x = l) xs" by (simp add: group_by_level_bucket)
      with tot l it show "\<exists>items. map_of ?li l = Some items
        \<and> (\<forall>m n. \<exists>x. build m l items n = Returned x)" by simp
    qed
    from process_levels_stops [OF run' ne this] show ?thesis .
  qed
qed

text \<open>The cases of \<^verbatim>\<open>create_page\<close> with content.\<close>

lemma create_page_cases:
  assumes "create_page e title (Some content) = (res, evs)"
  shows "(batches evs = [] \<and> created_uids res = None \<and> (\<forall>ev\<in>set evs. \<not> raised ev)
          \<and> (title = [] \<or> content = [] \<or> validate_children content (- 1) \<noteq> None
              \<or> (\<exists>msg. find_or_create_page e title = Raised msg)))
       \<or> (\<exists>page r s. title \<noteq> [] \<and> content \<noteq> [] \<and> validate_children content (- 1) = None
            \<and> find_or_create_page e title = Returned page
            \<and> process_levels e (level_actions e page)
                 (group_by_level (sort_key n_level (flatten_content content (- 1) [])) [])
                 (sort (map fst (group_by_level
                    (sort_key n_level (flatten_content content (- 1) [])) [])))
                 \<lparr>created = [], level_parent_map = [- 1 \<mapsto> page],
                  log = [FindOrCreatePage title (Returned page)], next_uuid = 0\<rparr> = (r, s)
            \<and> evs = log s
            \<and> (r = None \<longrightarrow> success res \<and> created_uids res = Some (created s))
            \<and> (r \<noteq> None \<longrightarrow> \<not> success res \<and> created_uids res = None))"
  using assms
  by (auto simp add: create_page_def Let_def failure_def raised_def
      split: if_splits outcome.splits option.splits prod.splits)


lemma create_page_wired:
  assumes run: "create_page e title (Some content) = (res, evs)"
    and page: "find_or_create_page e title = Returned page"
    and i: "i < length (batches evs)"
  shows "wired page (group_by_level (sort_key n_level (flatten_content content (- 1) [])) [])
           (levels_of (flatten_content content (- 1) [])) (batches evs) i"
proof -
  let ?flat = "flatten_content content (- 1) []"
  let ?xs = "sort_key n_level ?flat"
  from create_page_cases [OF run] i page obtain r s where
    valid: "validate_children content (- 1) = None"
    and loop: "process_levels e (level_actions e page) (group_by_level ?xs [])
                 (sort (map fst (group_by_level ?xs [])))
                 \<lparr>created = [], level_parent_map = [- 1 \<mapsto> page],
                  log = [FindOrCreatePage title (Returned page)], next_uuid = 0\<rparr> = (r, s)"
    and evs: "evs = log s"
    by auto
  have pos: "\<forall>x\<in>set ?xs. 0 \<le> n_level x"
    using validated_levels [OF valid] by (simp add: flatten_content_append)
  have "\<forall>i<length (batches (log s)).
           wired page (group_by_level ?xs []) (levels_of ?xs) (batches (log s)) i"
    by (rule level_loop_run(7) [OF sound_level_actions loop _ _ pos])
       (simp_all add: raised_def)
  with i evs show ?thesis by (simp add: levels_of_sort_key)
qed

lemma sorted_bucket:
  "bucket (group_by_level (sort_key n_level xs) []) l = filter (\<lambda>x. n_level x = l) xs"
  by (simp add: group_by_level_bucket sort_key_stable)

text \<open>
  Claim C3, amended. The parent of the nodes of a depth is looked up at the depth one
  below only. In \<^verbatim>\<open>create_page\<close> batch \<open>i\<close> creates the nodes of the \<open>i\<close>-th
  depth of the outline, in flattening order; when the outline has no node at the depth one
  below (a gap), all of them are attached to the page: the table is not searched further
  down.
\<close>

theorem create_page_gap_parent:
  assumes "create_page e title (Some content) = (res, evs)"
    and "find_or_create_page e title = Returned page"
    and "flat = flatten_content content (- 1) []"
    and "i < length (batches evs)"
    and "levels_of flat ! i - 1 \<notin> set (levels_of flat)"
  shows "map act_string (fst (batches evs ! i))
           = map n_text (filter (\<lambda>x. n_level x = levels_of flat ! i) flat)
         \<and> (\<forall>a\<in>set (fst (batches evs ! i)). act_parent_uid a = page)"
proof -
  have "levels_of flat ! i - 1 \<notin> set (take i (levels_of flat))"
    using assms(5) by (meson in_set_takeD)
  with create_page_wired [OF assms(1,2,4)] assms(3) show ?thesis
    by (simp add: wired_def sorted_bucket)
qed

text \<open>
  Claim C6, amended. In \<^verbatim>\<open>create_page\<close> the nodes of a depth are attached to the
  identifier that the module generated for the last node of the batch of the depth one
  below, the one sent in the request, whatever identifiers the store returned for that
  batch.
\<close>

theorem create_page_parent_is_local:
  assumes "create_page e title (Some content) = (res, evs)"
    and "find_or_create_page e title = Returned page"
    and "flat = flatten_content content (- 1) []"
    and "i < length (batches evs)" and "j < i"
    and "levels_of flat ! j = levels_of flat ! i - 1"
  shows "\<forall>a\<in>set (fst (batches evs ! i)).
           act_parent_uid a = act_uid (last (fst (batches evs ! j)))"
  using create_page_wired [OF assms(1,2,4)] assms(3,5,6)
  by (simp add: wired_def)

lemma target_page_batches:
  "target_page e a b [] = (x, lg) \<Longrightarrow> batches lg = []"
  by (auto simp add: target_page_def split: option.splits)

text \<open>
  Claim C7. In \<^verbatim>\<open>create_page\<close> and in \<^verbatim>\<open>create_block\<close> the list
  \<^verbatim>\<open>created_uids\<close> of the result is made of one part per batch, in the order of the
  batches: the identifiers returned by the store when the response carries them, the
  locally generated identifiers of the batch when the response signals success without
  identifiers, and nothing otherwise.
\<close>

theorem created_uids_reconciled:
  "(create_page e title (Some content) = (res, evs) \<and> created_uids res = Some uids
      \<longrightarrow> uids = concat (map reconciled (batches evs)))
   \<and> (create_block e markdown page_uid_arg page_title = (res', evs')
        \<and> created_uids res' = Some uids'
      \<longrightarrow> uids' = concat (map reconciled (batches evs')))"
proof (intro conjI impI)
  assume a: "create_page e title (Some content) = (res, evs) \<and> created_uids res = Some uids"
  let ?xs = "sort_key n_level (flatten_content content (- 1) [])"
  from a create_page_cases [of e title content res evs] obtain page r s where
    loop: "process_levels e (level_actions e page) (group_by_level ?xs [])
                 (sort (map fst (group_by_level ?xs [])))
                 \<lparr>created = [], level_parent_map = [- 1 \<mapsto> page],
                  log = [FindOrCreatePage title (Returned page)], next_uuid = 0\<rparr> = (r, s)"
    and evs: "evs = log s"
    and ok: "r = None \<longrightarrow> success res \<and> created_uids res = Some (created s)"
    and ko: "r \<noteq> None \<longrightarrow> \<not> success res \<and> created_uids res = None"
    by auto
  from a ko have r: "r = None" by auto
  with loop have "process_levels e (level_actions e page) (group_by_level ?xs [])
                 (sort (map fst (group_by_level ?xs [])))
                 \<lparr>created = [], level_parent_map = [- 1 \<mapsto> page],
                  log = [FindOrCreatePage title (Returned page)], next_uuid = 0\<rparr> = (None, s)"
    by simp
  from process_levels_created [OF sound_level_actions this]
  have "created s = concat (map reconciled (batches (log s)))" by auto
  with a ok r evs show "uids = concat (map reconciled (batches evs))" by simp
next
  assume a: "create_block e markdown page_uid_arg page_title = (res', evs')
              \<and> created_uids res' = Some uids'"
  let ?xs = "parse_markdown_list e markdown"
  from a obtain target lg s where
    tp: "target_page e page_uid_arg page_title [] = (Returned target, lg)"
    and loop: "process_levels e (level_actions e target) (group_by_level ?xs [])
                 (sort (map fst (group_by_level ?xs [])))
                 \<lparr>created = [], level_parent_map = [- 1 \<mapsto> target],
                  log = lg, next_uuid = 0\<rparr> = (None, s)"
    and evs: "evs' = log s" and cr: "uids' = created s"
    by (auto simp add: create_block_def Let_def failure_def
        split: if_splits outcome.splits option.splits prod.splits)
  from process_levels_created [OF sound_level_actions loop] target_page_batches [OF tp]
  have "created s = concat (map reconciled (batches (log s)))" by auto
  with evs cr show "uids' = concat (map reconciled (batches evs'))" by simp
qed

lemma concat_reconciled_filter:
  "concat (map reconciled (filter (\<lambda>b. \<not> failed b) bs)) = concat (map reconciled bs)"
  by (induction bs) (auto simp add: reconciled_def failed_def split: outcome.splits)

lemma plain_levels:
  assumes "\<forall>i<length (levels_of xs).
      list_all P (filter (\<lambda>x. n_level x = levels_of xs ! i) xs)"
  shows "list_all P xs"
  unfolding list_all_iff
proof
  fix x assume x: "x \<in> set xs"
  then have "n_level x \<in> set (levels_of xs)" by (simp add: set_levels_of)
  then obtain i where i: "i < length (levels_of xs)" and l: "levels_of xs ! i = n_level x"
    by (auto simp add: in_set_conv_nth)
  from assms i have "list_all P (filter (\<lambda>y. n_level y = levels_of xs ! i) xs)" by simp
  with x l show "P x" by (simp add: list_all_iff)
qed

text \<open>
  Claim C1, amended. In \<^verbatim>\<open>create_page\<close>, a batch that the store answers with a
  failure does not stop the loop. When no call of the store raises and no heading level
  of the content raises in the test of line 159, the result is a success and there is one
  batch for every depth of the outline, also for the depths after a failed batch; a
  failed batch adds nothing to \<^verbatim>\<open>created_uids\<close>, which is the concatenation of the
  identifiers of the other batches. When a call of the store raises, it is the last call
  and the result is no success. When some heading level raises, the result is no success
  either, and not every depth gets its batch.
\<close>

theorem create_page_failed_batch:
  assumes "create_page e title (Some content) = (res, evs)"
    and "title \<noteq> []" and "content \<noteq> []"
    and "find_or_create_page e title = Returned page"
    and "validate_children content (- 1) = None"
  shows "((\<forall>ev\<in>set evs. \<not> raised ev)
            \<and> list_all (\<lambda>x. plain_heading (n_heading_level x))
                 (flatten_content content (- 1) []) \<longrightarrow>
            success res
            \<and> length (batches evs) = length (levels_of (flatten_content content (- 1) []))
            \<and> created_uids res
                = Some (concat (map reconciled (filter (\<lambda>b. \<not> failed b) (batches evs)))))
         \<and> (\<forall>i<length evs. raised (evs ! i) \<longrightarrow> Suc i = length evs \<and> \<not> success res)
         \<and> (\<not> list_all (\<lambda>x. plain_heading (n_heading_level x))
                 (flatten_content content (- 1) []) \<longrightarrow>
              \<not> success res
              \<and> length (batches evs) < length (levels_of (flatten_content content (- 1) [])))"
proof -
  let ?flat = "flatten_content content (- 1) []"
  let ?xs = "sort_key n_level ?flat"
  let ?P = "\<lambda>x. plain_heading (n_heading_level x)"
  from create_page_cases [OF assms(1)] assms(2-5) obtain r s where
    loop: "process_levels e (level_actions e page) (group_by_level ?xs [])
                 (sort (map fst (group_by_level ?xs [])))
                 \<lparr>created = [], level_parent_map = [- 1 \<mapsto> page],
                  log = [FindOrCreatePage title (Returned page)], next_uuid = 0\<rparr> = (r, s)"
    and evs: "evs = log s"
    and ok: "r = None \<longrightarrow> success res \<and> created_uids res = Some (created s)"
    and ko: "r \<noteq> None \<longrightarrow> \<not> success res \<and> created_uids res = None"
    by auto
  have pos: "\<forall>x\<in>set ?xs. 0 \<le> n_level x"
    using validated_levels [OF assms(5)] by (simp add: flatten_content_append)
  have lg: "batches [FindOrCreatePage title (Returned page)] = []"
    "\<forall>ev\<in>set [FindOrCreatePage title (Returned page)]. \<not> raised ev"
    by (simp_all add: raised_def)
  note facts = level_loop_run [OF sound_level_actions loop lg pos]
  have same: "list_all ?P ?xs = list_all ?P ?flat" by (simp add: list_all_iff)
  have one: "(\<forall>ev\<in>set evs. \<not> raised ev) \<and> list_all ?P ?flat \<longrightarrow>
            success res
            \<and> length (batches evs) = length (levels_of ?flat)
            \<and> created_uids res
                = Some (concat (map reconciled (filter (\<lambda>b. \<not> failed b) (batches evs))))"
  proof
    assume a: "(\<forall>ev\<in>set evs. \<not> raised ev) \<and> list_all ?P ?flat"
    then have nr: "\<forall>ev\<in>set evs. \<not> raised ev" and pl: "list_all ?P ?xs"
      using same by simp_all
    have tot: "\<forall>l\<in>set (levels_of ?xs). \<forall>m n.
        \<exists>x. level_actions e page m l (filter (\<lambda>x. n_level x = l) ?xs) n = Returned x"
    proof (intro ballI allI)
      fix l m n
      from pl have "list_all ?P (filter (\<lambda>x. n_level x = l) ?xs)"
        by (simp add: list_all_iff)
      then show "\<exists>x. level_actions e page m l (filter (\<lambda>x. n_level x = l) ?xs) n
          = Returned x"
        by (rule level_actions_total)
    qed
    have r: "r = None"
    proof (rule ccontr)
      assume "r \<noteq> None"
      from facts(5) [OF this tot] have "log s \<noteq> []" "raised (last (log s))" by simp_all
      with nr evs show False by (metis last_in_set)
    qed
    from facts(2) [OF r] facts(3) [OF r] ok r evs
    show "success res
            \<and> length (batches evs) = length (levels_of ?flat)
            \<and> created_uids res
                = Some (concat (map reconciled (filter (\<lambda>b. \<not> failed b) (batches evs))))"
      by (simp add: levels_of_sort_key concat_reconciled_filter)
  qed
  have two: "\<forall>i<length evs. raised (evs ! i) \<longrightarrow> Suc i = length evs \<and> \<not> success res"
  proof (intro allI impI)
    fix i assume i: "i < length evs" and ri: "raised (evs ! i)"
    from facts(6) i ri evs have last: "Suc i = length evs" by simp
    have "r \<noteq> None"
    proof
      assume "r = None"
      from facts(4) [OF this] i ri evs show False by (metis nth_mem)
    qed
    with ko last show "Suc i = length evs \<and> \<not> success res" by simp
  qed
  have three: "\<not> list_all ?P ?flat \<longrightarrow>
      \<not> success res \<and> length (batches evs) < length (levels_of ?flat)"
  proof
    assume bad: "\<not> list_all ?P ?flat"
    have short: "length (batches (log s)) \<noteq> length (levels_of ?xs)"
    proof
      assume full: "length (batches (log s)) = length (levels_of ?xs)"
      have "\<forall>i<length (levels_of ?xs).
          list_all ?P (filter (\<lambda>x. n_level x = levels_of ?xs ! i) ?xs)"
      proof (intro allI impI)
        fix i assume "i < length (levels_of ?xs)"
        with facts(7) full
        have "wired page (group_by_level ?xs []) (levels_of ?xs) (batches (log s)) i"
          by simp
        then show "list_all ?P (filter (\<lambda>x. n_level x = levels_of ?xs ! i) ?xs)"
          by (simp add: wired_def group_by_level_bucket)
      qed
      then have "list_all ?P ?xs" by (rule plain_levels)
      with bad same show False by simp
    qed
    with facts(1) have lt: "length (batches (log s)) < length (levels_of ?xs)" by simp
    have "r \<noteq> None"
    proof
      assume "r = None"
      from facts(2) [OF this] short show False by simp
    qed
    with ko lt evs show "\<not> success res \<and> length (batches evs) < length (levels_of ?flat)"
      by (simp add: levels_of_sort_key)
  qed
  from one two three show ?thesis by blast
qed

text \<open>
  Claim C3 as stated fails: with nodes at the depths 0 and 2 only, the node of depth 2 is
  attached to the page \<open>ROOT1\<close>, not to the node of depth 0.
\<close>

theorem create_page_gap_counterexample:
  "act_parent_uid (hd (fst (batches (snd (create_page (graph accepting no_parser) ''T''
       (Some gap_outline))) ! 1))) = ''ROOT1''
   \<and> act_uid (hd (fst (batches (snd (create_page (graph accepting no_parser) ''T''
       (Some gap_outline))) ! 0))) = ''b''
   \<and> act_parent_uid (hd (fst (batches (snd (create_page (graph accepting no_parser) ''T''
       (Some gap_outline))) ! 1)))
     \<noteq> act_uid (hd (fst (batches (snd (create_page (graph accepting no_parser) ''T''
       (Some gap_outline))) ! 0)))"
  by (simp add: run_simps)

text \<open>The gap theorem at the outline with the depths 0 and 2.\<close>

theorem create_page_gap_parent_witness:
  "levels_of (flatten_content gap_outline (- 1) []) = [0, 2]
   \<and> map act_string (fst (batches (snd (create_page (graph accepting no_parser) ''T''
        (Some gap_outline))) ! 1)) = [''D'']
   \<and> map act_parent_uid (fst (batches (snd (create_page (graph accepting no_parser) ''T''
        (Some gap_outline))) ! 1)) = [''ROOT1'']"
proof -
  let ?run = "create_page (graph accepting no_parser) ''T'' (Some gap_outline)"
  have h1: "?run = (fst ?run, snd ?run)" by simp
  have h2: "find_or_create_page (graph accepting no_parser) ''T'' = Returned ''ROOT1''"
    by (simp add: graph_def)
  have lv: "levels_of (flatten_content gap_outline (- 1) []) = [0, 2]"
    by (simp add: run_simps levels_of_def)
  have h4: "1 < length (batches (snd ?run))" by (simp add: run_simps)
  have h5: "levels_of (flatten_content gap_outline (- 1) []) ! 1 - 1
      \<notin> set (levels_of (flatten_content gap_outline (- 1) []))"
    unfolding lv by simp
  from create_page_gap_parent [OF h1 h2 refl h4 h5] lv show ?thesis
    by (simp add: run_simps)
qed

text \<open>
  Claim C6 as stated fails: the store returns \<open>a1\<close>, \<open>a2\<close> for the two nodes of depth
  0, and the node of depth 1 is attached to the generated identifier \<open>b1\<close>.
\<close>

theorem create_page_store_ids_counterexample:
  "snd (batches (snd (create_page (graph renaming no_parser) ''T'' (Some xyz))) ! 0)
     = Returned (Response (Some [''a1'', ''a2'']) True)
   \<and> act_parent_uid (hd (fst (batches (snd (create_page (graph renaming no_parser) ''T''
        (Some xyz))) ! 1))) = ''b1''
   \<and> act_parent_uid (hd (fst (batches (snd (create_page (graph renaming no_parser) ''T''
        (Some xyz))) ! 1))) \<noteq> ''a2''"
  by (simp add: run_simps)

text \<open>The same run as an instance of the theorem.\<close>

theorem create_page_parent_is_local_witness:
  "levels_of (flatten_content xyz (- 1) []) = [0, 1]
   \<and> map act_uid (fst (batches (snd (create_page (graph renaming no_parser) ''T''
        (Some xyz))) ! 0)) = [''b'', ''b1'']
   \<and> map act_parent_uid (fst (batches (snd (create_page (graph renaming no_parser) ''T''
        (Some xyz))) ! 1)) = [''b1'']"
proof -
  let ?run = "create_page (graph renaming no_parser) ''T'' (Some xyz)"
  have h1: "?run = (fst ?run, snd ?run)" by simp
  have h2: "find_or_create_page (graph renaming no_parser) ''T'' = Returned ''ROOT1''"
    by (simp add: graph_def)
  have lv: "levels_of (flatten_content xyz (- 1) []) = [0, 1]"
    by (simp add: run_simps levels_of_def)
  have h4: "1 < length (batches (snd ?run))" by (simp add: run_simps)
  have h5: "(0::nat) < 1" by simp
  have h6: "levels_of (flatten_content xyz (- 1) []) ! 0
      = levels_of (flatten_content xyz (- 1) []) ! 1 - 1"
    unfolding lv by simp
  from create_page_parent_is_local [OF h1 h2 refl h4 h5 h6] lv show ?thesis
    by (simp add: run_simps)
qed

text \<open>A run of each entry point: identifiers of the store, and generated identifiers.\<close>

theorem created_uids_reconciled_witness:
  "created_uids (fst (create_page (graph renaming no_parser) ''T'' (Some xyz)))
     = Some [''a1'', ''a2'', ''a1'', ''a2'']
   \<and> concat (map reconciled (batches (snd (create_page (graph renaming no_parser) ''T''
        (Some xyz))))) = [''a1'', ''a2'', ''a1'', ''a2'']
   \<and> created_uids (fst (create_block (graph accepting abcd_lines) [CHR ''x'', CHR 0x0A]
        (Some ''ROOT1'') None)) = Some [''b'', ''b1'', ''b11'', ''b111'']
   \<and> concat (map reconciled (batches (snd (create_block (graph accepting abcd_lines)
        [CHR ''x'', CHR 0x0A] (Some ''ROOT1'') None)))) = [''b'', ''b1'', ''b11'', ''b111'']"
proof -
  let ?p = "create_page (graph renaming no_parser) ''T'' (Some xyz)"
  let ?b = "create_block (graph accepting abcd_lines) [CHR ''x'', CHR 0x0A] (Some ''ROOT1'') None"
  have p: "?p = (fst ?p, snd ?p) \<and> created_uids (fst ?p) = Some [''a1'', ''a2'', ''a1'', ''a2'']"
    by (simp add: run_simps)
  have b: "?b = (fst ?b, snd ?b)
      \<and> created_uids (fst ?b) = Some [''b'', ''b1'', ''b11'', ''b111'']"
    by (simp add: run_simps)
  from created_uids_reconciled [where e = "graph renaming no_parser" and title = "''T''"
      and content = xyz and res = "fst ?p" and evs = "snd ?p"
      and uids = "[''a1'', ''a2'', ''a1'', ''a2'']"] p
  have one: "[''a1'', ''a2'', ''a1'', ''a2''] = concat (map reconciled (batches (snd ?p)))"
    by simp
  from created_uids_reconciled [where e = "graph accepting abcd_lines"
      and markdown = "[CHR ''x'', CHR 0x0A]" and page_uid_arg = "Some ''ROOT1''"
      and page_title = None and res' = "fst ?b" and evs' = "snd ?b"
      and uids' = "[''b'', ''b1'', ''b11'', ''b111'']"] b
  have two: "[''b'', ''b1'', ''b11'', ''b111''] = concat (map reconciled (batches (snd ?b)))"
    by simp
  from one two p b show ?thesis by simp
qed

text \<open>
  Claim C1 as stated fails: the store answers the batch of depth 1 with a failure, and
  the batch of depth 2 is sent all the same and the result is a success.
\<close>

theorem create_page_continues_counterexample:
  "snd (batches (snd (create_page (graph refusing_pairs no_parser) ''T'' (Some abcd))) ! 1)
     = Returned (Response None False)
   \<and> length (batches (snd (create_page (graph refusing_pairs no_parser) ''T'' (Some abcd)))) = 3
   \<and> success (fst (create_page (graph refusing_pairs no_parser) ''T'' (Some abcd)))"
  by (simp add: run_simps refusing_pairs_def)

text \<open>
  A run with a failed batch, a run where the second write raises, and a run where a
  heading level raises after the first batch.
\<close>

theorem create_page_failed_batch_witness:
  "success (fst (create_page (graph refusing_pairs no_parser) ''T'' (Some abcd)))
   \<and> length (batches (snd (create_page (graph refusing_pairs no_parser) ''T'' (Some abcd)))) = 3
   \<and> created_uids (fst (create_page (graph refusing_pairs no_parser) ''T'' (Some abcd)))
       = Some [''b'', ''b111'']
   \<and> raised (snd (create_page (graph raising_later no_parser) ''T'' (Some abcd)) ! 2)
   \<and> length (snd (create_page (graph raising_later no_parser) ''T'' (Some abcd))) = 3
   \<and> \<not> success (fst (create_page (graph raising_later no_parser) ''T'' (Some abcd)))
   \<and> \<not> success (fst (create_page (graph accepting no_parser) ''T'' (Some headed)))
   \<and> error (fst (create_page (graph accepting no_parser) ''T'' (Some headed)))
       = Some (type_error ''str'')
   \<and> length (batches (snd (create_page (graph accepting no_parser) ''T'' (Some headed)))) = 1
   \<and> length (levels_of (flatten_content headed (- 1) [])) = 2"
proof -
  let ?p = "create_page (graph refusing_pairs no_parser) ''T'' (Some abcd)"
  let ?q = "create_page (graph raising_later no_parser) ''T'' (Some abcd)"
  let ?h = "create_page (graph accepting no_parser) ''T'' (Some headed)"
  have p1: "?p = (fst ?p, snd ?p)" and q1: "?q = (fst ?q, snd ?q)"
    and h1: "?h = (fst ?h, snd ?h)" by simp_all
  have t: "''T'' \<noteq> []" and c: "abcd \<noteq> []" and ch: "headed \<noteq> []"
    by (simp_all add: abcd_def headed_def)
  have fp: "find_or_create_page (graph refusing_pairs no_parser) ''T'' = Returned ''ROOT1''"
    and fq: "find_or_create_page (graph raising_later no_parser) ''T'' = Returned ''ROOT1''"
    and fh: "find_or_create_page (graph accepting no_parser) ''T'' = Returned ''ROOT1''"
    by (simp_all add: graph_def)
  have v: "validate_children abcd (- 1) = None" by (simp add: abcd_def node_def)
  have vh: "validate_children headed (- 1) = None" by (simp add: headed_def node_def)
  have nr: "\<forall>ev\<in>set (snd ?p). \<not> raised ev" by (simp add: run_simps raised_def)
  have pl: "list_all (\<lambda>x. plain_heading (n_heading_level x)) (flatten_content abcd (- 1) [])"
    by (simp add: run_simps)
  have bad: "\<not> list_all (\<lambda>x. plain_heading (n_heading_level x))
      (flatten_content headed (- 1) [])"
    by (simp add: run_simps)
  have bs: "concat (map reconciled (filter (\<lambda>b. \<not> failed b) (batches (snd ?p))))
      = [''b'', ''b111'']"
    by (simp add: run_simps reconciled_def failed_def)
  have rq: "2 < length (snd ?q) \<and> raised (snd ?q ! 2)" by (simp add: run_simps raised_def)
  have lv: "length (levels_of (flatten_content abcd (- 1) [])) = 3"
    by (simp add: run_simps levels_of_def)
  have lh: "length (levels_of (flatten_content headed (- 1) [])) = 2"
    by (simp add: run_simps levels_of_def)
  have eh: "error (fst ?h) = Some (type_error ''str'')
      \<and> length (batches (snd ?h)) = 1"
    by (simp add: run_simps)
  from create_page_failed_batch [OF p1 t c fp v] nr pl bs lv
  have one: "success (fst ?p) \<and> length (batches (snd ?p)) = 3
      \<and> created_uids (fst ?p) = Some [''b'', ''b111'']"
    by simp
  from create_page_failed_batch [OF q1 t c fq v] rq
  have two: "Suc 2 = length (snd ?q) \<and> \<not> success (fst ?q)" by blast
  from create_page_failed_batch [OF h1 t ch fh vh] bad
  have three: "\<not> success (fst ?h)" by blast
  from one two three rq eh lh show ?thesis by simp
qed


subsection \<open>Validation in \<^verbatim>\<open>create_page\<close>\<close>

lemma validate_well_typed:
  "(- 1 \<le> parent_level \<longrightarrow> (validate_item item parent_level = None \<longleftrightarrow> well_typed item))"
  "(- 1 \<le> level \<longrightarrow> (validate_children items level = None \<longleftrightarrow> list_all well_typed items))"
proof (induction item parent_level and items level rule: validate_item_validate_children.induct)
  case (1 t l h c parent_level)
  show ?case
  proof
    assume pl: "- 1 \<le> parent_level"
    show "validate_item (Item t l h c) parent_level = None \<longleftrightarrow> well_typed (Item t l h c)"
    proof (cases t)
      case None
      then show ?thesis by simp
    next
      case (Some tv)
      show ?thesis
      proof (cases tv)
        case (PStr s)
        note t = Some PStr
        show ?thesis
        proof (cases "case l of None \<Rightarrow> PInt (parent_level + 1) | Some v \<Rightarrow> v")
          case (PInt lv)
          show ?thesis
          proof (cases "lv < 0")
            case True
            with t PInt pl show ?thesis by (auto split: option.splits pyval.splits)
          next
            case False
            show ?thesis
            proof (cases c)
              case None
              with t PInt False show ?thesis by (auto split: option.splits pyval.splits)
            next
              case (Some k)
              show ?thesis
              proof (cases k)
                case NotAList
                with t PInt False Some show ?thesis by (auto split: option.splits pyval.splits)
              next
                case (PyList children)
                from False have "- 1 \<le> lv" by simp
                with "1.IH" [OF t PInt False Some PyList]
                have "validate_children children lv = None \<longleftrightarrow> list_all well_typed children"
                  by simp
                with t PInt False Some PyList show ?thesis
                  by (auto split: option.splits pyval.splits)
              qed
            qed
          qed
        next
          case (PStr x)
          with t show ?thesis by (auto split: option.splits pyval.splits)
        next
          case PNone
          with t show ?thesis by (auto split: option.splits pyval.splits)
        next
          case (POther tn)
          with t show ?thesis by (auto split: option.splits pyval.splits)
        qed
      next
        case (PInt x)
        with Some show ?thesis by simp
      next
        case PNone
        with Some show ?thesis by simp
      next
        case (POther tn)
        with Some show ?thesis by simp
      qed
    qed
  qed
next
  case (2 level)
  show ?case by simp
next
  case (3 child children level)
  show ?case
  proof
    assume lv: "- 1 \<le> level"
    from "3.IH"(1) lv have a: "validate_item child level = None \<longleftrightarrow> well_typed child" by simp
    show "validate_children (child # children) level = None
        \<longleftrightarrow> list_all well_typed (child # children)"
    proof (cases "validate_item child level")
      case None
      with "3.IH"(2) [OF None] lv a show ?thesis by simp
    next
      case (Some err)
      with a show ?thesis by simp
    qed
  qed
qed

text \<open>
  Claim C5, amended. \<^verbatim>\<open>create_page\<close> first finds or creates the page by title, which
  is a call of the store. Then it rejects the content exactly when some node has a text
  that is not a string, a level that is present and not an integer or negative, or
  children that are not a list; the result is then the error
  \<open>Invalid content structure\<close>, and the call for the page is the only one that was made:
  no block is created.
\<close>

theorem create_page_validation:
  "(validate_children content (- 1) = None \<longleftrightarrow> list_all well_typed content)
   \<and> (create_page e title (Some content) = (res, evs) \<and> title \<noteq> []
        \<and> find_or_create_page e title = Returned page \<and> \<not> list_all well_typed content
      \<longrightarrow> \<not> success res
          \<and> (\<exists>err. error res = Some (''Invalid content structure - '' @ err))
          \<and> evs = [FindOrCreatePage title (Returned page)])"
proof (rule conjI)
  show v: "validate_children content (- 1) = None \<longleftrightarrow> list_all well_typed content"
    using validate_well_typed(2) [of "- 1" content] by simp
  show "create_page e title (Some content) = (res, evs) \<and> title \<noteq> []
        \<and> find_or_create_page e title = Returned page \<and> \<not> list_all well_typed content
      \<longrightarrow> \<not> success res
          \<and> (\<exists>err. error res = Some (''Invalid content structure - '' @ err))
          \<and> evs = [FindOrCreatePage title (Returned page)]"
  proof (rule impI)
    assume a: "create_page e title (Some content) = (res, evs) \<and> title \<noteq> []
        \<and> find_or_create_page e title = Returned page \<and> \<not> list_all well_typed content"
    with v obtain err where err: "validate_children content (- 1) = Some err"
      by (cases "validate_children content (- 1)") auto
    from a have ne: "content \<noteq> []" by auto
    from a err ne have "res = failure (''Invalid content structure - '' @ err)"
      and "evs = [FindOrCreatePage title (Returned page)]"
      by (auto simp add: create_page_def)
    then show "\<not> success res
          \<and> (\<exists>err. error res = Some (''Invalid content structure - '' @ err))
          \<and> evs = [FindOrCreatePage title (Returned page)]"
      by (simp add: failure_def)
  qed
qed

text \<open>A node with the level \<open>- 1\<close>: rejected after the call for the page.\<close>

theorem create_page_validation_witness:
  "validate_children [node ''A'' (- 1)] (- 1) \<noteq> None
   \<and> \<not> success (fst (create_page (graph accepting no_parser) ''T'' (Some [node ''A'' (- 1)])))
   \<and> snd (create_page (graph accepting no_parser) ''T'' (Some [node ''A'' (- 1)]))
       = [FindOrCreatePage ''T'' (Returned ''ROOT1'')]"
proof -
  let ?run = "create_page (graph accepting no_parser) ''T'' (Some [node ''A'' (- 1)])"
  have h: "?run = (fst ?run, snd ?run) \<and> ''T'' \<noteq> []
      \<and> find_or_create_page (graph accepting no_parser) ''T'' = Returned ''ROOT1''
      \<and> \<not> list_all well_typed [node ''A'' (- 1)]"
    by (simp add: graph_def node_def)
  from create_page_validation [of "[node ''A'' (- 1)]" "graph accepting no_parser" "''T''"
      "fst ?run" "snd ?run" "''ROOT1''"] h
  show ?thesis by simp
qed

text \<open>
  Claim C5 as stated fails: the page is asked for before the content is validated, and
  an empty text and an empty outline are not rejected.
\<close>

theorem create_page_validates_late_counterexample:
  "\<not> success (fst (create_page (graph accepting no_parser) ''T'' (Some [node ''A'' (- 1)])))
   \<and> snd (create_page (graph accepting no_parser) ''T'' (Some [node ''A'' (- 1)]))
       = [FindOrCreatePage ''T'' (Returned ''ROOT1'')]
   \<and> success (fst (create_page (graph accepting no_parser) ''T'' (Some [node [] 0])))
   \<and> batches (snd (create_page (graph accepting no_parser) ''T'' (Some [node [] 0])))
       = [([Action ''ROOT1'' ''last'' [] ''b'' None], Returned (Response None True))]
   \<and> success (fst (create_page (graph accepting no_parser) ''T'' (Some [])))"
  by (simp add: run_simps)


subsection \<open>Nested blocks\<close>










end
